theory Spec2Isabelle
  imports Complex_Main
begin

section \<open>Spectral quantities: data model\<close>

text \<open>
  The embedding follows \<^verbatim>\<open>src/NumericalAlgorithms/Spectral/Spectral.cpp\<close>.
  A \<^verbatim>\<open>double\<close> is modelled as a \<^typ>\<open>real\<close>: arithmetic is exact, so round-off,
  infinities and NaN are outside the model, and a division by zero (which the code
  never guards) has HOL's value \<open>0\<close>; the theorems say where they need a divisor to
  be non-zero. A \<^verbatim>\<open>size_t\<close> is a \<^typ>\<open>nat\<close>: the indices the code forms are bounded
  by the sizes of its vectors and matrices.
\<close>

text \<open>
  Modelled from the spec: the enumerations \<^verbatim>\<open>Basis\<close> and \<^verbatim>\<open>Quadrature\<close>, declared in
  \<^verbatim>\<open>Spectral.hpp\<close>, which is not among the sources (``a closed set of basis families
  (currently one) crossed with a closed set of quadrature rules''). The source names
  \<^verbatim>\<open>Basis::Legendre\<close>, \<^verbatim>\<open>Quadrature::Gauss\<close> and \<^verbatim>\<open>Quadrature::GaussLobatto\<close>, and its
  switches have \<^verbatim>\<open>default:\<close> branches for every other value of the enumeration
  types; the constructors \<open>OtherBasis\<close> and \<open>OtherQuadrature\<close> stand for those values.
\<close>

datatype Basis = Legendre | OtherBasis

datatype Quadrature = Gauss | GaussLobatto | OtherQuadrature

datatype error = RangeError | UnsupportedCombination

text \<open>
  Modelled from the spec: the class \<^verbatim>\<open>Matrix\<close> of \<^verbatim>\<open>DataStructures/Matrix.hpp\<close>, which
  is not among the sources (``a dense real matrix''), with its constructor
  \<^verbatim>\<open>Matrix(rows, columns)\<close>, its \<^verbatim>\<open>operator()(i, j)\<close> for reading and for writing, and
  its \<^verbatim>\<open>data()\<close> array. The array is column-major, element \<open>(i, j)\<close> at offset
  \<open>i + j * rows\<close>: this is the layout under which the source's own uses of \<^verbatim>\<open>data()\<close>
  agree with its uses of \<^verbatim>\<open>operator()\<close>, since the array is handed to a
  \<^verbatim>\<open>blaze::columnMajor\<close> matrix whose \<open>(i, j)\<close> elements are copied back as the \<open>(i, j)\<close>
  elements of a \<^verbatim>\<open>Matrix\<close>, and to BLAS \<^verbatim>\<open>dgemm_\<close> with a leading dimension equal to the
  number of rows. A new matrix is filled with zeros here; every generator assigns all
  the elements of the matrix it returns, so no result depends on that.
\<close>

record Matrix =
  rows :: nat
  columns :: nat
  data :: "real list"

definition Matrix_new :: "nat \<Rightarrow> nat \<Rightarrow> Matrix" where
  "Matrix_new r c = \<lparr>rows = r, columns = c, data = replicate (r * c) 0\<rparr>"

definition mat_at :: "Matrix \<Rightarrow> nat \<Rightarrow> nat \<Rightarrow> real" where
  "mat_at M i j = data M ! (i + j * rows M)"

definition mat_put :: "Matrix \<Rightarrow> nat \<Rightarrow> nat \<Rightarrow> real \<Rightarrow> Matrix" where
  "mat_put M i j v = M\<lparr>data := (data M)[i + j * rows M := v]\<rparr>"

text \<open>Modelled from the spec: \<^verbatim>\<open>Mesh<1>\<close> of \<^verbatim>\<open>DataStructures/Mesh.hpp\<close>, which is not
  among the sources (``carries a runtime Basis, Quadrature, and extent-per-dimension;
  the kernel reads these three fields and nothing else''): \<^verbatim>\<open>extents(0)\<close>, \<^verbatim>\<open>basis(0)\<close>
  and \<^verbatim>\<open>quadrature(0)\<close>.\<close>

record Mesh1 =
  extents0 :: nat
  basis0 :: Basis
  quadrature0 :: Quadrature

text \<open>
  The functions and constants that \<^verbatim>\<open>Spectral.cpp\<close> only declares or uses, and whose
  definitions are not among the sources, are parameters of the model:
  the three basis-specific functions declared at the top of the file, the two
  point-count bounds of the header, \<^verbatim>\<open>blaze::invert\<close> (on a square column-major
  matrix) and \<^verbatim>\<open>equal_within_roundoff\<close>.
\<close>

record prims =
  compute_basis_function_value :: "Basis \<Rightarrow> nat \<Rightarrow> real \<Rightarrow> real"
  compute_basis_function_normalization_square :: "Basis \<Rightarrow> nat \<Rightarrow> real"
  compute_collocation_points_and_weights :: "Basis \<Rightarrow> Quadrature \<Rightarrow> nat \<Rightarrow> real list \<times> real list"
  maximum_number_of_points :: "Basis \<Rightarrow> nat"
  minimum_number_of_points :: "Basis \<Rightarrow> Quadrature \<Rightarrow> nat"
  blaze_invert :: "Matrix \<Rightarrow> Matrix"
  equal_within_roundoff :: "real \<Rightarrow> real \<Rightarrow> bool"

section \<open>The caches as explicit state\<close>

text \<open>
  Every instantiation of \<^verbatim>\<open>precomputed_spectral_quantity\<close> owns one function-local
  \<^verbatim>\<open>static const\<close> table. A store maps the template arguments \<open>(basis, quadrature)\<close>
  to \<open>None\<close> while that static is not initialised, and to the table afterwards; the
  table holds one value per point count of \<^verbatim>\<open>CacheRange<min, max + 1>\<close>, in order.
  There is one store per generator.
\<close>

type_synonym 'a store = "Basis \<times> Quadrature \<Rightarrow> 'a list option"

record caches =
  collocation_cache :: "(real list \<times> real list) store"
  barycentric_cache :: "real list store"
  differentiation_cache :: "Matrix store"
  spectral_to_grid_cache :: "Matrix store"
  grid_to_spectral_cache :: "Matrix store"
  linear_filter_cache :: "Matrix store"

definition empty_caches :: caches where
  "empty_caches = \<lparr>collocation_cache = (\<lambda>_. None), barycentric_cache = (\<lambda>_. None),
     differentiation_cache = (\<lambda>_. None), spectral_to_grid_cache = (\<lambda>_. None),
     grid_to_spectral_cache = (\<lambda>_. None), linear_filter_cache = (\<lambda>_. None)\<rparr>"

text \<open>A call takes the caches and returns its result, or the error it failed with,
  together with the caches as it left them.\<close>

type_synonym 'a cached = "caches \<Rightarrow> (error + 'a) \<times> caches"

definition return_c :: "'a \<Rightarrow> 'a cached" where
  "return_c v s = (Inr v, s)"

definition fail_c :: "error \<Rightarrow> 'a cached" where
  "fail_c e s = (Inl e, s)"

definition bind_c :: "'a cached \<Rightarrow> ('a \<Rightarrow> 'b cached) \<Rightarrow> 'b cached" where
  "bind_c m f s = (case m s of (Inl e, s') \<Rightarrow> (Inl e, s') | (Inr v, s') \<Rightarrow> f v s')"

text \<open>Modelled from the spec: the macro \<^verbatim>\<open>ASSERT\<close> of \<^verbatim>\<open>ErrorHandling/Assert.hpp\<close>, which
  is not among the sources. The source uses it on the point count only, and the spec
  says of these two checks that the request ``fails with a RangeError if N is outside
  [min,max] for that pair (checked before any computation)'': a check that is always
  made, and that fails with that error.\<close>

definition ASSERT :: "bool \<Rightarrow> unit cached" where
  "ASSERT c = (if c then return_c () else fail_c RangeError)"

text \<open>Modelled from the spec: the macro \<^verbatim>\<open>ERROR\<close> of \<^verbatim>\<open>ErrorHandling/Error.hpp\<close>, which
  is not among the sources. The source uses it in the dispatch only (``fails fatally
  (unsupported-combination error)'').\<close>

definition ERROR :: "'a cached" where
  "ERROR = fail_c UnsupportedCombination"

text \<open>Modelled from the spec: \<^verbatim>\<open>make_static_cache\<close> of \<^verbatim>\<open>Utilities/StaticCache.hpp\<close>,
  which is not among the sources (``computes each entry exactly once and returns a
  stable reference thereafter''). The generator is called for every point count of the
  range when the table is made, as the source says where it calls it: ``We compute the
  quantity for all possible \<^verbatim>\<open>num_point\<close>s the first time this function is called and
  keep the data around for the lifetime of the program''.\<close>

fun make_static_cache :: "(nat \<Rightarrow> 'a cached) \<Rightarrow> nat list \<Rightarrow> 'a list cached" where
  "make_static_cache generator [] = return_c []"
| "make_static_cache generator (n # ns) =
     bind_c (generator n) (\<lambda>v.
     bind_c (make_static_cache generator ns) (\<lambda>vs.
     return_c (v # vs)))"

definition precomputed_spectral_quantity ::
  "prims \<Rightarrow> (caches \<Rightarrow> 'a store) \<Rightarrow> (('a store \<Rightarrow> 'a store) \<Rightarrow> caches \<Rightarrow> caches) \<Rightarrow>
   (nat \<Rightarrow> 'a cached) \<Rightarrow> Basis \<Rightarrow> Quadrature \<Rightarrow> nat \<Rightarrow> 'a cached" where
  "precomputed_spectral_quantity P static_of static_update generator BasisType QuadratureType num_points =
     (let max_num_points = maximum_number_of_points P BasisType;
          min_num_points = minimum_number_of_points P BasisType QuadratureType
      in bind_c (ASSERT (num_points \<ge> min_num_points)) (\<lambda>_.
         bind_c (ASSERT (num_points \<le> max_num_points)) (\<lambda>_.
         (\<lambda>s. case static_of s (BasisType, QuadratureType) of
                 Some precomputed_data \<Rightarrow>
                   (Inr (precomputed_data ! (num_points - min_num_points)), s)
               | None \<Rightarrow>
                   bind_c (make_static_cache generator [min_num_points..<max_num_points + 1])
                     (\<lambda>precomputed_data s'.
                        (Inr (precomputed_data ! (num_points - min_num_points)),
                         static_update (\<lambda>st. st((BasisType, QuadratureType) \<mapsto> precomputed_data)) s'))
                     s))))"

section \<open>Collocation points and quadrature weights\<close>

definition CollocationPointsAndWeightsGenerator ::
  "prims \<Rightarrow> Basis \<Rightarrow> Quadrature \<Rightarrow> nat \<Rightarrow> (real list \<times> real list) cached" where
  "CollocationPointsAndWeightsGenerator P BasisType QuadratureType num_points =
     return_c (compute_collocation_points_and_weights P BasisType QuadratureType num_points)"

definition collocation_points :: "prims \<Rightarrow> Basis \<Rightarrow> Quadrature \<Rightarrow> nat \<Rightarrow> real list cached" where
  "collocation_points P BasisType QuadratureType num_points =
     bind_c (precomputed_spectral_quantity P collocation_cache collocation_cache_update
               (CollocationPointsAndWeightsGenerator P BasisType QuadratureType)
               BasisType QuadratureType num_points)
       (\<lambda>pw. return_c (fst pw))"

definition quadrature_weights :: "prims \<Rightarrow> Basis \<Rightarrow> Quadrature \<Rightarrow> nat \<Rightarrow> real list cached" where
  "quadrature_weights P BasisType QuadratureType num_points =
     bind_c (precomputed_spectral_quantity P collocation_cache collocation_cache_update
               (CollocationPointsAndWeightsGenerator P BasisType QuadratureType)
               BasisType QuadratureType num_points)
       (\<lambda>pw. return_c (snd pw))"

section \<open>Barycentric weights\<close>

text \<open>The body of the loop over \<open>k\<close>: the two in-place multiplications.\<close>

definition bary_pair :: "real list \<Rightarrow> nat \<Rightarrow> nat \<Rightarrow> real list \<Rightarrow> real list" where
  "bary_pair x j k bary_weights =
     (let bw = bary_weights[k := bary_weights ! k * (x ! k - x ! j)]
      in bw[j := bw ! j * (x ! j - x ! k)])"

text \<open>The two loops of the generator, on the collocation points \<open>x\<close>.\<close>

definition bary_products :: "nat \<Rightarrow> real list \<Rightarrow> real list" where
  "bary_products num_points x =
     fold (\<lambda>j bw. fold (bary_pair x j) [0..<j] bw) [1..<num_points] (replicate num_points 1)"

text \<open>The pairs \<open>(j, k)\<close> the two nested loops visit, in the order they visit them.\<close>

definition bary_pairs :: "nat \<Rightarrow> (nat \<times> nat) list" where
  "bary_pairs num_points = concat (map (\<lambda>j. map (\<lambda>k. (j, k)) [0..<j]) [1..<num_points])"

definition bary_reciprocals :: "nat \<Rightarrow> real list \<Rightarrow> real list" where
  "bary_reciprocals num_points bary_weights =
     fold (\<lambda>j bw. bw[j := 1 / bw ! j]) [0..<num_points] bary_weights"

definition BarycentricWeightsGenerator ::
  "prims \<Rightarrow> Basis \<Rightarrow> Quadrature \<Rightarrow> nat \<Rightarrow> real list cached" where
  "BarycentricWeightsGenerator P BasisType QuadratureType num_points =
     bind_c (collocation_points P BasisType QuadratureType num_points) (\<lambda>x.
     return_c (bary_reciprocals num_points (bary_products num_points x)))"

definition barycentric_weights :: "prims \<Rightarrow> Basis \<Rightarrow> Quadrature \<Rightarrow> nat \<Rightarrow> real list cached" where
  "barycentric_weights P BasisType QuadratureType num_points =
     precomputed_spectral_quantity P barycentric_cache barycentric_cache_update
       (BarycentricWeightsGenerator P BasisType QuadratureType)
       BasisType QuadratureType num_points"

section \<open>Differentiation matrix\<close>

text \<open>The body of the loop over \<open>j\<close>. \<^verbatim>\<open>diagonal\<close> is a reference to the element
  \<open>(i, i)\<close> of the matrix, so \<^verbatim>\<open>diagonal -= diff_matrix(i, j)\<close> updates that element.\<close>

definition diff_entry :: "real list \<Rightarrow> real list \<Rightarrow> nat \<Rightarrow> nat \<Rightarrow> Matrix \<Rightarrow> Matrix" where
  "diff_entry collocation_pts bary_weights i j diff_matrix =
     (if i \<noteq> j then
        let dm = mat_put diff_matrix i j
                   (bary_weights ! j /
                    (bary_weights ! i * (collocation_pts ! i - collocation_pts ! j)))
        in mat_put dm i i (mat_at dm i i - mat_at dm i j)
      else diff_matrix)"

definition diff_row :: "nat \<Rightarrow> real list \<Rightarrow> real list \<Rightarrow> nat \<Rightarrow> Matrix \<Rightarrow> Matrix" where
  "diff_row num_points collocation_pts bary_weights i diff_matrix =
     fold (diff_entry collocation_pts bary_weights i) [0..<num_points]
       (mat_put diff_matrix i i 0)"

definition diff_loops :: "nat \<Rightarrow> real list \<Rightarrow> real list \<Rightarrow> Matrix" where
  "diff_loops num_points collocation_pts bary_weights =
     fold (diff_row num_points collocation_pts bary_weights) [0..<num_points]
       (Matrix_new num_points num_points)"

definition DifferentiationMatrixGenerator ::
  "prims \<Rightarrow> Basis \<Rightarrow> Quadrature \<Rightarrow> nat \<Rightarrow> Matrix cached" where
  "DifferentiationMatrixGenerator P BasisType QuadratureType num_points =
     bind_c (collocation_points P BasisType QuadratureType num_points) (\<lambda>collocation_pts.
     bind_c (barycentric_weights P BasisType QuadratureType num_points) (\<lambda>bary_weights.
     return_c (diff_loops num_points collocation_pts bary_weights)))"

definition differentiation_matrix :: "prims \<Rightarrow> Basis \<Rightarrow> Quadrature \<Rightarrow> nat \<Rightarrow> Matrix cached" where
  "differentiation_matrix P BasisType QuadratureType num_points =
     precomputed_spectral_quantity P differentiation_cache differentiation_cache_update
       (DifferentiationMatrixGenerator P BasisType QuadratureType)
       BasisType QuadratureType num_points"

section \<open>Transforms between grid points and spectral coefficients\<close>

text \<open>Two nested loops that assign every element \<open>(i, j)\<close> of a square matrix: the
  shape of the loops of the three transform generators.\<close>

definition assign_all :: "nat \<Rightarrow> (nat \<Rightarrow> nat \<Rightarrow> real) \<Rightarrow> Matrix \<Rightarrow> Matrix" where
  "assign_all num_points f M =
     fold (\<lambda>i M. fold (\<lambda>j M. mat_put M i j (f i j)) [0..<num_points] M) [0..<num_points] M"

definition SpectralToGridPointsMatrixGenerator ::
  "prims \<Rightarrow> Basis \<Rightarrow> Quadrature \<Rightarrow> nat \<Rightarrow> Matrix cached" where
  "SpectralToGridPointsMatrixGenerator P BasisType QuadratureType num_points =
     bind_c (collocation_points P BasisType QuadratureType num_points) (\<lambda>x.
     return_c (assign_all num_points
                 (\<lambda>i j. compute_basis_function_value P BasisType j (x ! i))
                 (Matrix_new num_points num_points)))"

definition spectral_to_grid_points_matrix ::
  "prims \<Rightarrow> Basis \<Rightarrow> Quadrature \<Rightarrow> nat \<Rightarrow> Matrix cached" where
  "spectral_to_grid_points_matrix P BasisType QuadratureType num_points =
     precomputed_spectral_quantity P spectral_to_grid_cache spectral_to_grid_cache_update
       (SpectralToGridPointsMatrixGenerator P BasisType QuadratureType)
       BasisType QuadratureType num_points"

text \<open>The generic generator: \<^verbatim>\<open>work\<close> is a column-major copy of the Vandermonde
  matrix's array, inverted in place by \<^verbatim>\<open>blaze::invert\<close> and copied back element by
  element.\<close>

definition invert_numerically :: "prims \<Rightarrow> nat \<Rightarrow> Matrix \<Rightarrow> Matrix" where
  "invert_numerically P num_points vandermonde_matrix =
     (let work = blaze_invert P
            \<lparr>rows = num_points, columns = num_points,
             data = take (num_points * num_points) (data vandermonde_matrix)\<rparr>
      in assign_all num_points (\<lambda>i j. mat_at work i j) (Matrix_new num_points num_points))"

text \<open>The specialisation for \<^verbatim>\<open>Quadrature::Gauss\<close>: the analytic expression.\<close>

definition invert_analytically :: "prims \<Rightarrow> Basis \<Rightarrow> nat \<Rightarrow> real list \<Rightarrow> Matrix \<Rightarrow> Matrix" where
  "invert_analytically P BasisType num_points weights vandermonde_matrix =
     assign_all num_points
       (\<lambda>i j. mat_at vandermonde_matrix j i * weights ! j /
              compute_basis_function_normalization_square P BasisType i)
       (Matrix_new num_points num_points)"

text \<open>The template and its partial specialisation: the specialisation is chosen
  exactly when the quadrature is \<^verbatim>\<open>Quadrature::Gauss\<close>.\<close>

definition GridPointsToSpectralMatrixGenerator ::
  "prims \<Rightarrow> Basis \<Rightarrow> Quadrature \<Rightarrow> nat \<Rightarrow> Matrix cached" where
  "GridPointsToSpectralMatrixGenerator P BasisType QuadratureType num_points =
     (case QuadratureType of
        Gauss \<Rightarrow>
          bind_c (quadrature_weights P BasisType Gauss num_points) (\<lambda>weights.
          bind_c (spectral_to_grid_points_matrix P BasisType Gauss num_points) (\<lambda>vandermonde_matrix.
          return_c (invert_analytically P BasisType num_points weights vandermonde_matrix)))
      | _ \<Rightarrow>
          bind_c (spectral_to_grid_points_matrix P BasisType QuadratureType num_points)
            (\<lambda>vandermonde_matrix.
          return_c (invert_numerically P num_points vandermonde_matrix)))"

definition grid_points_to_spectral_matrix ::
  "prims \<Rightarrow> Basis \<Rightarrow> Quadrature \<Rightarrow> nat \<Rightarrow> Matrix cached" where
  "grid_points_to_spectral_matrix P BasisType QuadratureType num_points =
     precomputed_spectral_quantity P grid_to_spectral_cache grid_to_spectral_cache_update
       (GridPointsToSpectralMatrixGenerator P BasisType QuadratureType)
       BasisType QuadratureType num_points"

section \<open>Linear filter\<close>

text \<open>
  BLAS \<^verbatim>\<open>dgemm_\<close>, an external routine, after its reference documentation:
  \<open>C := alpha * op(A) * op(B) + beta * C\<close> on column-major arrays with leading
  dimensions \<open>lda\<close>, \<open>ldb\<close>, \<open>ldc\<close>, where \<open>op(X)\<close> is \<open>X\<close> for \<^verbatim>\<open>'N'\<close> and its transpose
  otherwise; \<open>op(A)\<close> is \<open>m \<times> k\<close>, \<open>op(B)\<close> is \<open>k \<times> n\<close> and \<open>C\<close> is \<open>m \<times> n\<close>.
\<close>

definition dgemm ::
  "char \<Rightarrow> char \<Rightarrow> nat \<Rightarrow> nat \<Rightarrow> nat \<Rightarrow> real \<Rightarrow> real list \<Rightarrow> nat \<Rightarrow> real list \<Rightarrow> nat \<Rightarrow>
   real \<Rightarrow> real list \<Rightarrow> nat \<Rightarrow> real list" where
  "dgemm transa transb m n k alpha a lda b ldb beta c ldc =
     (let op_a = (\<lambda>i l. if transa = CHR ''N'' then a ! (i + l * lda) else a ! (l + i * lda));
          op_b = (\<lambda>l j. if transb = CHR ''N'' then b ! (l + j * ldb) else b ! (j + l * ldb))
      in fold (\<lambda>j c. fold (\<lambda>i c.
                 c[i + j * ldc :=
                     alpha * (\<Sum>l\<leftarrow>[0..<k]. op_a i l * op_b l j) + beta * c ! (i + j * ldc)])
               [0..<m] c)
           [0..<n] c)"

definition linear_filter_product :: "nat \<Rightarrow> Matrix \<Rightarrow> Matrix \<Rightarrow> Matrix" where
  "linear_filter_product num_points spectral_to_grid grid_to_spectral =
     (let lin_filter = Matrix_new num_points num_points
      in lin_filter\<lparr>data :=
           dgemm CHR ''N'' CHR ''N'' num_points num_points (min 2 num_points) 1
             (data spectral_to_grid) num_points (data grid_to_spectral) num_points
             0 (data lin_filter) num_points\<rparr>)"

definition LinearFilterMatrixGenerator ::
  "prims \<Rightarrow> Basis \<Rightarrow> Quadrature \<Rightarrow> nat \<Rightarrow> Matrix cached" where
  "LinearFilterMatrixGenerator P BasisType QuadratureType num_points =
     bind_c (spectral_to_grid_points_matrix P BasisType QuadratureType num_points) (\<lambda>V.
     bind_c (grid_points_to_spectral_matrix P BasisType QuadratureType num_points) (\<lambda>G.
     return_c (linear_filter_product num_points V G)))"

definition linear_filter_matrix :: "prims \<Rightarrow> Basis \<Rightarrow> Quadrature \<Rightarrow> nat \<Rightarrow> Matrix cached" where
  "linear_filter_matrix P BasisType QuadratureType num_points =
     precomputed_spectral_quantity P linear_filter_cache linear_filter_cache_update
       (LinearFilterMatrixGenerator P BasisType QuadratureType)
       BasisType QuadratureType num_points"

section \<open>Interpolation matrix\<close>

text \<open>The first loop over \<open>j\<close> of row \<open>k\<close>: it returns the matrix and
  \<^verbatim>\<open>row_has_match\<close>.\<close>

definition interp_scan ::
  "prims \<Rightarrow> nat \<Rightarrow> real list \<Rightarrow> real \<Rightarrow> nat \<Rightarrow> Matrix \<Rightarrow> Matrix \<times> bool" where
  "interp_scan P num_points collocation_pts target k interp_matrix =
     fold (\<lambda>j (M, row_has_match).
             let M0 = mat_put M k j 0
             in if equal_within_roundoff P target (collocation_pts ! j)
                then (mat_put M0 k j 1, True)
                else (M0, row_has_match))
       [0..<num_points] (interp_matrix, False)"

text \<open>The second loop: the unnormalised weights and their \<^verbatim>\<open>sum\<close> (here \<open>row_sum\<close>).\<close>

definition interp_weights ::
  "nat \<Rightarrow> real list \<Rightarrow> real list \<Rightarrow> real \<Rightarrow> nat \<Rightarrow> Matrix \<Rightarrow> Matrix \<times> real" where
  "interp_weights num_points collocation_pts bary_weights target k interp_matrix =
     fold (\<lambda>j (M, row_sum).
             let M1 = mat_put M k j (bary_weights ! j / (target - collocation_pts ! j))
             in (M1, row_sum + mat_at M1 k j))
       [0..<num_points] (interp_matrix, 0)"

text \<open>The third loop: the division of the row by \<^verbatim>\<open>row_sum\<close>.\<close>

definition interp_normalize :: "nat \<Rightarrow> real \<Rightarrow> nat \<Rightarrow> Matrix \<Rightarrow> Matrix" where
  "interp_normalize num_points row_sum k interp_matrix =
     fold (\<lambda>j M. mat_put M k j (mat_at M k j / row_sum)) [0..<num_points] interp_matrix"

definition interp_row ::
  "prims \<Rightarrow> nat \<Rightarrow> real list \<Rightarrow> real list \<Rightarrow> real list \<Rightarrow> nat \<Rightarrow> Matrix \<Rightarrow> Matrix" where
  "interp_row P num_points collocation_pts bary_weights target_points k interp_matrix =
     (case interp_scan P num_points collocation_pts (target_points ! k) k interp_matrix of
        (M, row_has_match) \<Rightarrow>
          if \<not> row_has_match then
            (case interp_weights num_points collocation_pts bary_weights (target_points ! k) k M of
               (M1, row_sum) \<Rightarrow> interp_normalize num_points row_sum k M1)
          else M)"

definition interp_loops ::
  "prims \<Rightarrow> nat \<Rightarrow> real list \<Rightarrow> real list \<Rightarrow> real list \<Rightarrow> Matrix" where
  "interp_loops P num_points collocation_pts bary_weights target_points =
     (let num_target_points = length target_points
      in fold (interp_row P num_points collocation_pts bary_weights target_points)
           [0..<num_target_points] (Matrix_new num_target_points num_points))"

definition interpolation_matrix ::
  "prims \<Rightarrow> Basis \<Rightarrow> Quadrature \<Rightarrow> nat \<Rightarrow> real list \<Rightarrow> Matrix cached" where
  "interpolation_matrix P BasisType QuadratureType num_points target_points =
     (let max_num_points = maximum_number_of_points P BasisType;
          min_num_points = minimum_number_of_points P BasisType QuadratureType
      in bind_c (ASSERT (num_points \<ge> min_num_points)) (\<lambda>_.
         bind_c (ASSERT (num_points \<le> max_num_points)) (\<lambda>_.
         bind_c (collocation_points P BasisType QuadratureType num_points) (\<lambda>collocation_pts.
         bind_c (barycentric_weights P BasisType QuadratureType num_points) (\<lambda>bary_weights.
         return_c (interp_loops P num_points collocation_pts bary_weights target_points))))))"

section \<open>Dispatch on a mesh\<close>

definition get_spectral_quantity_for_mesh ::
  "(Basis \<Rightarrow> Quadrature \<Rightarrow> nat \<Rightarrow> 'a cached) \<Rightarrow> Mesh1 \<Rightarrow> 'a cached" where
  "get_spectral_quantity_for_mesh f mesh =
     (let num_points = extents0 mesh
      in case basis0 mesh of
           Legendre \<Rightarrow>
             (case quadrature0 mesh of
                Gauss \<Rightarrow> f Legendre Gauss num_points
              | GaussLobatto \<Rightarrow> f Legendre GaussLobatto num_points
              | _ \<Rightarrow> ERROR)
         | _ \<Rightarrow> ERROR)"

text \<open>The overloads that take a mesh; C++ overloads them on the argument type, here
  they carry the suffix \<open>_mesh\<close>.\<close>

definition collocation_points_mesh :: "prims \<Rightarrow> Mesh1 \<Rightarrow> real list cached" where
  "collocation_points_mesh P mesh =
     get_spectral_quantity_for_mesh
       (\<lambda>basis quadrature num_points. collocation_points P basis quadrature num_points) mesh"

definition quadrature_weights_mesh :: "prims \<Rightarrow> Mesh1 \<Rightarrow> real list cached" where
  "quadrature_weights_mesh P mesh =
     get_spectral_quantity_for_mesh
       (\<lambda>basis quadrature num_points. quadrature_weights P basis quadrature num_points) mesh"

definition differentiation_matrix_mesh :: "prims \<Rightarrow> Mesh1 \<Rightarrow> Matrix cached" where
  "differentiation_matrix_mesh P mesh =
     get_spectral_quantity_for_mesh
       (\<lambda>basis quadrature num_points. differentiation_matrix P basis quadrature num_points) mesh"

definition spectral_to_grid_points_matrix_mesh :: "prims \<Rightarrow> Mesh1 \<Rightarrow> Matrix cached" where
  "spectral_to_grid_points_matrix_mesh P mesh =
     get_spectral_quantity_for_mesh
       (\<lambda>basis quadrature num_points.
          spectral_to_grid_points_matrix P basis quadrature num_points) mesh"

definition grid_points_to_spectral_matrix_mesh :: "prims \<Rightarrow> Mesh1 \<Rightarrow> Matrix cached" where
  "grid_points_to_spectral_matrix_mesh P mesh =
     get_spectral_quantity_for_mesh
       (\<lambda>basis quadrature num_points.
          grid_points_to_spectral_matrix P basis quadrature num_points) mesh"

definition linear_filter_matrix_mesh :: "prims \<Rightarrow> Mesh1 \<Rightarrow> Matrix cached" where
  "linear_filter_matrix_mesh P mesh =
     get_spectral_quantity_for_mesh
       (\<lambda>basis quadrature num_points. linear_filter_matrix P basis quadrature num_points) mesh"

definition interpolation_matrix_mesh :: "prims \<Rightarrow> Mesh1 \<Rightarrow> real list \<Rightarrow> Matrix cached" where
  "interpolation_matrix_mesh P mesh target_points =
     get_spectral_quantity_for_mesh
       (\<lambda>basis quadrature num_points.
          interpolation_matrix P basis quadrature num_points target_points) mesh"

section \<open>What the caches hold\<close>

text \<open>The value of each quantity as a function of the template arguments and the
  point count alone: the generator's loops applied to the values of the quantities it
  asks the caches for.\<close>

definition points_of :: "prims \<Rightarrow> Basis \<Rightarrow> Quadrature \<Rightarrow> nat \<Rightarrow> real list" where
  "points_of P B Q n = fst (compute_collocation_points_and_weights P B Q n)"

definition weights_of :: "prims \<Rightarrow> Basis \<Rightarrow> Quadrature \<Rightarrow> nat \<Rightarrow> real list" where
  "weights_of P B Q n = snd (compute_collocation_points_and_weights P B Q n)"

definition bary_of :: "prims \<Rightarrow> Basis \<Rightarrow> Quadrature \<Rightarrow> nat \<Rightarrow> real list" where
  "bary_of P B Q n = bary_reciprocals n (bary_products n (points_of P B Q n))"

definition diff_of :: "prims \<Rightarrow> Basis \<Rightarrow> Quadrature \<Rightarrow> nat \<Rightarrow> Matrix" where
  "diff_of P B Q n = diff_loops n (points_of P B Q n) (bary_of P B Q n)"

definition vandermonde_of :: "prims \<Rightarrow> Basis \<Rightarrow> Quadrature \<Rightarrow> nat \<Rightarrow> Matrix" where
  "vandermonde_of P B Q n =
     assign_all n (\<lambda>i j. compute_basis_function_value P B j (points_of P B Q n ! i))
       (Matrix_new n n)"

definition inverse_of :: "prims \<Rightarrow> Basis \<Rightarrow> Quadrature \<Rightarrow> nat \<Rightarrow> Matrix" where
  "inverse_of P B Q n =
     (case Q of
        Gauss \<Rightarrow> invert_analytically P B n (weights_of P B Gauss n) (vandermonde_of P B Gauss n)
      | _ \<Rightarrow> invert_numerically P n (vandermonde_of P B Q n))"

definition filter_of :: "prims \<Rightarrow> Basis \<Rightarrow> Quadrature \<Rightarrow> nat \<Rightarrow> Matrix" where
  "filter_of P B Q n = linear_filter_product n (vandermonde_of P B Q n) (inverse_of P B Q n)"

text \<open>The point counts the range check admits, and the range of a table.\<close>

definition supported :: "prims \<Rightarrow> Basis \<Rightarrow> Quadrature \<Rightarrow> nat \<Rightarrow> bool" where
  "supported P B Q n \<longleftrightarrow>
     minimum_number_of_points P B Q \<le> n \<and> n \<le> maximum_number_of_points P B"

definition cache_range :: "prims \<Rightarrow> Basis \<Rightarrow> Quadrature \<Rightarrow> nat list" where
  "cache_range P B Q = [minimum_number_of_points P B Q..<maximum_number_of_points P B + 1]"

text \<open>The invariant of the caches: a static that is initialised holds the table of
  its generator's values. The caches of a program that has just started
  (\<open>empty_caches\<close>) satisfy it, and every call preserves it.\<close>

definition store_ok :: "prims \<Rightarrow> (Basis \<Rightarrow> Quadrature \<Rightarrow> nat \<Rightarrow> 'a) \<Rightarrow> 'a store \<Rightarrow> bool" where
  "store_ok P val st \<longleftrightarrow>
     (\<forall>B Q tbl. st (B, Q) = Some tbl \<longrightarrow> tbl = map (val B Q) (cache_range P B Q))"

definition caches_ok :: "prims \<Rightarrow> caches \<Rightarrow> bool" where
  "caches_ok P s \<longleftrightarrow>
     store_ok P (compute_collocation_points_and_weights P) (collocation_cache s) \<and>
     store_ok P (bary_of P) (barycentric_cache s) \<and>
     store_ok P (diff_of P) (differentiation_cache s) \<and>
     store_ok P (vandermonde_of P) (spectral_to_grid_cache s) \<and>
     store_ok P (inverse_of P) (grid_to_spectral_cache s) \<and>
     store_ok P (filter_of P) (linear_filter_cache s)"

section \<open>Matrices as the specification speaks of them\<close>

definition is_matrix :: "nat \<Rightarrow> nat \<Rightarrow> Matrix \<Rightarrow> bool" where
  "is_matrix r c M \<longleftrightarrow> rows M = r \<and> columns M = c \<and> length (data M) = r * c"

text \<open>The matrix with \<open>r\<close> rows and \<open>c\<close> columns whose element \<open>(i, j)\<close> is \<open>f i j\<close>, the
  product of two matrices, the leading columns and rows of a matrix, and the identity.\<close>

definition mat_of :: "nat \<Rightarrow> nat \<Rightarrow> (nat \<Rightarrow> nat \<Rightarrow> real) \<Rightarrow> Matrix" where
  "mat_of r c f = \<lparr>rows = r, columns = c, data = map (\<lambda>p. f (p mod r) (p div r)) [0..<r * c]\<rparr>"

definition mat_mult :: "Matrix \<Rightarrow> Matrix \<Rightarrow> Matrix" where
  "mat_mult A B =
     mat_of (rows A) (columns B) (\<lambda>i j. \<Sum>l\<leftarrow>[0..<columns A]. mat_at A i l * mat_at B l j)"

definition first_columns :: "nat \<Rightarrow> Matrix \<Rightarrow> Matrix" where
  "first_columns k A = mat_of (rows A) k (mat_at A)"

definition first_rows :: "nat \<Rightarrow> Matrix \<Rightarrow> Matrix" where
  "first_rows k A = mat_of k (columns A) (mat_at A)"

definition identity_matrix :: "nat \<Rightarrow> Matrix" where
  "identity_matrix n = mat_of n n (\<lambda>i j. if i = j then 1 else 0)"

text \<open>The off-diagonal element of the differentiation matrix, and the element of a row
  of the interpolation matrix for the target \<open>t\<close>, as formulas.\<close>

definition diff_off :: "real list \<Rightarrow> real list \<Rightarrow> nat \<Rightarrow> nat \<Rightarrow> real" where
  "diff_off x b i j = b ! j / (b ! i * (x ! i - x ! j))"

definition interp_entry :: "prims \<Rightarrow> nat \<Rightarrow> real list \<Rightarrow> real list \<Rightarrow> real \<Rightarrow> nat \<Rightarrow> real" where
  "interp_entry P n x b t j =
     (if \<exists>l<n. equal_within_roundoff P t (x ! l)
      then (if equal_within_roundoff P t (x ! j) then 1 else 0)
      else (b ! j / (t - x ! j)) / (\<Sum>l<n. b ! l / (t - x ! l)))"

text \<open>What the code relies on from \<^verbatim>\<open>compute_collocation_points_and_weights\<close>: it
  returns \<open>n\<close> points and \<open>n\<close> weights, and the points are distinct.\<close>

definition collocation_set :: "prims \<Rightarrow> Basis \<Rightarrow> Quadrature \<Rightarrow> nat \<Rightarrow> bool" where
  "collocation_set P B Q n \<longleftrightarrow>
     length (points_of P B Q n) = n \<and> length (weights_of P B Q n) = n \<and>
     distinct (points_of P B Q n)"

text \<open>What the code relies on from \<^verbatim>\<open>equal_within_roundoff\<close> on collocation points:
  a point is equal to itself within round-off, and to no other point of the list.\<close>

definition roundoff_separates :: "prims \<Rightarrow> real list \<Rightarrow> bool" where
  "roundoff_separates P xs \<longleftrightarrow>
     (\<forall>i<length xs. \<forall>j<length xs. equal_within_roundoff P (xs ! i) (xs ! j) \<longleftrightarrow> i = j)"

section \<open>An instance of the parameters\<close>

text \<open>The Legendre polynomials by their three-term recurrence, their normalisation
  \<open>2 / (2 k + 1)\<close>, the Gauss and Gauss-Lobatto rules with at most three points (the
  irrational Gauss points rounded to sixteen digits), the inverse of a matrix with at
  most three rows by the adjugate formula, and a comparison with relative tolerance
  \<open>10\<^sup>-\<^sup>1\<^sup>4\<close>.\<close>

fun legendre :: "nat \<Rightarrow> real \<Rightarrow> real" where
  "legendre 0 x = 1"
| "legendre (Suc 0) x = x"
| "legendre (Suc (Suc k)) x =
     ((2 * real k + 3) * x * legendre (Suc k) x - (real k + 1) * legendre k x) / (real k + 2)"

definition small_rule :: "Quadrature \<Rightarrow> nat \<Rightarrow> real list \<times> real list" where
  "small_rule Q n =
     (if Q = Gauss \<and> n = 1 then ([0], [2])
      else if Q = Gauss \<and> n = 2
        then ([- 5773502691896257 / 10000000000000000, 5773502691896257 / 10000000000000000], [1, 1])
      else if Q = Gauss \<and> n = 3
        then ([- 7745966692414834 / 10000000000000000, 0, 7745966692414834 / 10000000000000000],
              [5 / 9, 8 / 9, 5 / 9])
      else if Q = GaussLobatto \<and> n = 2 then ([- 1, 1], [1, 1])
      else if Q = GaussLobatto \<and> n = 3 then ([- 1, 0, 1], [1 / 3, 4 / 3, 1 / 3])
      else ([], []))"

definition det3 :: "real list \<Rightarrow> real" where
  "det3 m =
     m ! 0 * (m ! 4 * m ! 8 - m ! 7 * m ! 5) - m ! 3 * (m ! 1 * m ! 8 - m ! 7 * m ! 2) +
     m ! 6 * (m ! 1 * m ! 5 - m ! 4 * m ! 2)"

definition small_invert :: "Matrix \<Rightarrow> Matrix" where
  "small_invert M =
     (let m = data M in
      if length m = 1 then M\<lparr>data := [1 / m ! 0]\<rparr>
      else if length m = 4 then
        M\<lparr>data := map (\<lambda>v. v / (m ! 0 * m ! 3 - m ! 2 * m ! 1)) [m ! 3, - m ! 1, - m ! 2, m ! 0]\<rparr>
      else if length m = 9 then
        M\<lparr>data := map (\<lambda>v. v / det3 m)
          [m ! 4 * m ! 8 - m ! 7 * m ! 5, m ! 7 * m ! 2 - m ! 1 * m ! 8, m ! 1 * m ! 5 - m ! 4 * m ! 2,
           m ! 6 * m ! 5 - m ! 3 * m ! 8, m ! 0 * m ! 8 - m ! 6 * m ! 2, m ! 3 * m ! 2 - m ! 0 * m ! 5,
           m ! 3 * m ! 7 - m ! 6 * m ! 4, m ! 6 * m ! 1 - m ! 0 * m ! 7, m ! 0 * m ! 4 - m ! 3 * m ! 1]\<rparr>
      else M)"

definition small_prims :: prims where
  "small_prims =
     \<lparr>compute_basis_function_value = (\<lambda>B k x. legendre k x),
      compute_basis_function_normalization_square = (\<lambda>B k. 2 / (2 * real k + 1)),
      compute_collocation_points_and_weights = (\<lambda>B Q n. small_rule Q n),
      maximum_number_of_points = (\<lambda>B. 3),
      minimum_number_of_points = (\<lambda>B Q. if Q = GaussLobatto then 2 else 1),
      blaze_invert = small_invert,
      equal_within_roundoff =
        (\<lambda>a b. \<bar>a - b\<bar> \<le> (max \<bar>a\<bar> \<bar>b\<bar> + 1) / 100000000000000)\<rparr>"

section \<open>The barycentric loops\<close>

lemma length_bary_pair [simp]: "length (bary_pair x j k bw) = length bw"
  by (simp add: bary_pair_def Let_def)

lemma bary_pair_nth:
  "k \<noteq> j \<Longrightarrow> k < length bw \<Longrightarrow> j < length bw \<Longrightarrow> i < length bw \<Longrightarrow>
   bary_pair x j k bw ! i =
     (if i = k then bw ! k * (x ! k - x ! j)
      else if i = j then bw ! j * (x ! j - x ! k) else bw ! i)"
  by (simp add: bary_pair_def Let_def nth_list_update)

lemma bary_inner_length [simp]: "length (fold (bary_pair x m) ks bw) = length bw"
  by (induction ks arbitrary: bw) simp_all

lemma bary_inner:
  "p \<le> m \<Longrightarrow> m < length bw \<Longrightarrow> i < length bw \<Longrightarrow>
   fold (bary_pair x m) [0..<p] bw ! i =
     (if i < p then bw ! i * (x ! i - x ! m)
      else if i = m then bw ! m * (\<Prod>l<p. x ! m - x ! l)
      else bw ! i)"
proof (induction p arbitrary: i)
  case 0
  then show ?case by simp
next
  case (Suc p)
  have p: "p < m" "p \<le> m" using Suc.prems by simp_all
  let ?b = "fold (bary_pair x m) [0..<p] bw"
  have len: "length ?b = length bw" by simp
  have "fold (bary_pair x m) [0..<Suc p] bw ! i = bary_pair x m p ?b ! i"
    by simp
  also have "\<dots> = (if i = p then ?b ! p * (x ! p - x ! m)
      else if i = m then ?b ! m * (x ! m - x ! p) else ?b ! i)"
    using p Suc.prems by (intro bary_pair_nth) (simp_all add: len)
  finally show ?case
    using p Suc.prems Suc.IH[of p] Suc.IH[of m] Suc.IH[of i]
    by (auto simp: less_Suc_eq)
qed

lemma diff_insert_lessThan:
  "i < m \<Longrightarrow> {..<Suc m} - {i} = insert m ({..<m} - {i})"
  "{..<Suc m} - {m} = {..<m}"
  by auto

lemma bary_outer_length [simp]:
  "length (fold (\<lambda>j bw. fold (bary_pair x j) [0..<j] bw) js bw) = length bw"
  by (induction js arbitrary: bw) simp_all

lemma bary_outer:
  "m \<le> n \<Longrightarrow> i < n \<Longrightarrow>
   fold (\<lambda>j bw. fold (bary_pair x j) [0..<j] bw) [1..<m] (replicate n 1) ! i =
     (if i < m then (\<Prod>l\<in>{..<m} - {i}. x ! i - x ! l) else 1)"
proof (induction m arbitrary: i)
  case 0
  then show ?case by simp
next
  case (Suc m)
  show ?case
  proof (cases "m = 0")
    case True
    then show ?thesis using Suc.prems by (auto simp: lessThan_Suc)
  next
    case False
    let ?b = "fold (\<lambda>j bw. fold (bary_pair x j) [0..<j] bw) [1..<m] (replicate n 1)"
    have len: "length ?b = n" by simp
    have m: "m < n" "m \<le> n" using Suc.prems by simp_all
    have up: "[1..<Suc m] = [1..<m] @ [m]" using False by simp
    have "fold (\<lambda>j bw. fold (bary_pair x j) [0..<j] bw) [1..<Suc m] (replicate n 1) ! i
        = fold (bary_pair x m) [0..<m] ?b ! i"
      unfolding up by simp
    also have "\<dots> = (if i < m then ?b ! i * (x ! i - x ! m)
      else if i = m then ?b ! m * (\<Prod>l<m. x ! m - x ! l)
      else ?b ! i)"
      using m Suc.prems by (intro bary_inner) (simp_all add: len)
    finally have eq: "fold (\<lambda>j bw. fold (bary_pair x j) [0..<j] bw) [1..<Suc m] (replicate n 1) ! i
        = (if i < m then ?b ! i * (x ! i - x ! m)
           else if i = m then ?b ! m * (\<Prod>l<m. x ! m - x ! l) else ?b ! i)" .
    consider "i < m" | "i = m" | "m < i" by linarith
    then show ?thesis
    proof cases
      case 1
      then have "?b ! i = (\<Prod>l\<in>{..<m} - {i}. x ! i - x ! l)"
        using Suc.IH[OF m(2), of i] Suc.prems by simp
      then show ?thesis using 1 eq by (simp add: diff_insert_lessThan(1) mult.commute)
    next
      case 2
      then have "?b ! m = 1" using Suc.IH[OF m(2), of m] m by simp
      then show ?thesis using 2 eq by (simp add: diff_insert_lessThan(2))
    next
      case 3
      then have "?b ! i = 1" using Suc.IH[OF m(2), of i] Suc.prems by simp
      then show ?thesis using 3 eq by simp
    qed
  qed
qed

lemma bary_products_nth:
  "i < n \<Longrightarrow> bary_products n x ! i = (\<Prod>l\<in>{..<n} - {i}. x ! i - x ! l)"
  using bary_outer[of n n i x] by (simp add: bary_products_def)

lemma length_bary_products [simp]: "length (bary_products n x) = n"
  by (simp add: bary_products_def)

lemma fold_reciprocal_length [simp]:
  "length (fold (\<lambda>j bw. bw[j := 1 / bw ! j]) js (bw::real list)) = length bw"
  by (induction js arbitrary: bw) simp_all

lemma fold_reciprocal_nth:
  "m \<le> length bw \<Longrightarrow> i < length bw \<Longrightarrow>
   fold (\<lambda>j bw. bw[j := 1 / bw ! j]) [0..<m] bw ! i = (if i < m then 1 / bw ! i else bw ! (i::nat))"
  for bw :: "real list"
proof (induction m arbitrary: i)
  case 0
  then show ?case by simp
next
  case (Suc m)
  then show ?case by (auto simp: nth_list_update less_Suc_eq)
qed

lemma bary_reciprocals_nth:
  "length bw = n \<Longrightarrow> i < n \<Longrightarrow> bary_reciprocals n bw ! i = 1 / bw ! i"
  by (simp add: bary_reciprocals_def fold_reciprocal_nth)

lemma length_bary_reciprocals [simp]: "length (bary_reciprocals n bw) = length bw"
  by (simp add: bary_reciprocals_def)

section \<open>Elements of a matrix\<close>

lemma index_bound: "i < r \<Longrightarrow> j < c \<Longrightarrow> i + j * r < r * (c::nat)"
proof -
  assume a: "i < r" "j < c"
  then have "i + j * r < r + j * r" by simp
  also have "\<dots> = r * Suc j" by simp
  also have "\<dots> \<le> r * c" using a by (intro mult_le_mono2) simp
  finally show ?thesis .
qed

lemma index_inj:
  "i < r \<Longrightarrow> i' < r \<Longrightarrow> i + j * r = i' + j' * r \<longleftrightarrow> i = i' \<and> j = (j'::nat)"
proof
  assume a: "i < r" "i' < r" and e: "i + j * r = i' + j' * r"
  have "(i + j * r) mod r = i" "(i' + j' * r) mod r = i'" using a by simp_all
  then have i: "i = i'" using e by simp
  have "(i + j * r) div r = j" "(i' + j' * r) div r = j'" using a by simp_all
  then show "i = i' \<and> j = j'" using e i by metis
qed simp

lemma is_matrix_new [simp]: "is_matrix r c (Matrix_new r c)"
  by (simp add: is_matrix_def Matrix_new_def)

lemma is_matrix_put [simp]: "is_matrix r c M \<Longrightarrow> is_matrix r c (mat_put M i j v)"
  by (simp add: is_matrix_def mat_put_def)

lemma mat_at_put:
  "is_matrix r c M \<Longrightarrow> i < r \<Longrightarrow> j < c \<Longrightarrow> i' < r \<Longrightarrow>
   mat_at (mat_put M i j v) i' j' = (if i = i' \<and> j = j' then v else mat_at M i' j')"
  using index_bound[of i r j c] index_inj[of i r i' j j']
  by (auto simp: is_matrix_def mat_at_def mat_put_def nth_list_update)

lemma mat_at_new: "i < r \<Longrightarrow> j < c \<Longrightarrow> mat_at (Matrix_new r c) i j = 0"
  using index_bound[of i r j c] by (simp add: mat_at_def Matrix_new_def)

lemma mat_eqI:
  assumes A: "is_matrix r c A" and B: "is_matrix r c B"
    and e: "\<And>i j. i < r \<Longrightarrow> j < c \<Longrightarrow> mat_at A i j = mat_at B i j"
  shows "A = B"
proof -
  have "data A = data B"
  proof (rule nth_equalityI)
    show "length (data A) = length (data B)" using A B by (simp add: is_matrix_def)
  next
    fix p assume "p < length (data A)"
    then have p: "p < r * c" using A by (simp add: is_matrix_def)
    then have r: "0 < r" by (cases r) simp_all
    have i: "p mod r < r" using r by simp
    have j: "p div r < c" using p by (simp add: less_mult_imp_div_less mult.commute)
    have "mat_at A (p mod r) (p div r) = mat_at B (p mod r) (p div r)" using e i j by simp
    then show "data A ! p = data B ! p"
      using A B by (simp add: mat_at_def is_matrix_def)
  qed
  then show ?thesis using A B by (simp add: is_matrix_def)
qed

section \<open>The differentiation loops\<close>

lemma is_matrix_diff_entry [simp]:
  "is_matrix r c M \<Longrightarrow> is_matrix r c (diff_entry x b i j M)"
  by (simp add: diff_entry_def Let_def)

lemma is_matrix_fold:
  assumes "\<And>j M. is_matrix r c M \<Longrightarrow> is_matrix r c (f j M)"
  shows "is_matrix r c M \<Longrightarrow> is_matrix r c (fold f js M)"
  using assms by (induction js arbitrary: M) simp_all

lemma diff_entry_at:
  "is_matrix n n M \<Longrightarrow> i < n \<Longrightarrow> j < n \<Longrightarrow> i' < n \<Longrightarrow> j' < n \<Longrightarrow>
   mat_at (diff_entry x b i j M) i' j' =
     (if i = j then mat_at M i' j'
      else if i' = i \<and> j' = i then mat_at M i i - diff_off x b i j
      else if i' = i \<and> j' = j then diff_off x b i j
      else mat_at M i' j')"
proof -
  assume M: "is_matrix n n M" and b: "i < n" "j < n" "i' < n" "j' < n"
  let ?v = "b ! j / (b ! i * (x ! i - x ! j))"
  let ?M1 = "mat_put M i j ?v"
  have M1: "is_matrix n n ?M1" using M by simp
  have a1: "mat_at ?M1 p q = (if i = p \<and> j = q then ?v else mat_at M p q)" if "p < n" for p q
    using mat_at_put[OF M b(1) b(2) that] .
  have a2: "mat_at (mat_put ?M1 i i w) p q = (if i = p \<and> i = q then w else mat_at ?M1 p q)"
    if "p < n" for p q w
    using mat_at_put[OF M1 b(1) b(1) that] .
  show ?thesis
    using b by (auto simp: diff_entry_def Let_def a1 a2 diff_off_def)
qed

lemma diff_inner:
  assumes M: "is_matrix n n M" and i: "i < n" and i': "i' < n" and j': "j' < n"
  shows "m \<le> n \<Longrightarrow>
   mat_at (fold (diff_entry x b i) [0..<m] M) i' j' =
     (if i' = i then
        (if j' = i then mat_at M i i - (\<Sum>l\<in>{..<m} - {i}. diff_off x b i l)
         else if j' < m then diff_off x b i j' else mat_at M i j')
      else mat_at M i' j')"
proof (induction m)
  case 0
  then show ?case by simp
next
  case (Suc m)
  let ?M = "fold (diff_entry x b i) [0..<m] M"
  have ok: "is_matrix n n ?M" by (rule is_matrix_fold) (use M in simp_all)
  have m: "m < n" "m \<le> n" using Suc.prems by simp_all
  have "mat_at (fold (diff_entry x b i) [0..<Suc m] M) i' j' = mat_at (diff_entry x b i m ?M) i' j'"
    by simp
  also have "\<dots> = (if i = m then mat_at ?M i' j'
      else if i' = i \<and> j' = i then mat_at ?M i i - diff_off x b i m
      else if i' = i \<and> j' = m then diff_off x b i m
      else mat_at ?M i' j')"
    using ok i m(1) i' j' by (rule diff_entry_at)
  finally have eq: "mat_at (fold (diff_entry x b i) [0..<Suc m] M) i' j' =
     (if i = m then mat_at ?M i' j'
      else if i' = i \<and> j' = i then mat_at ?M i i - diff_off x b i m
      else if i' = i \<and> j' = m then diff_off x b i m
      else mat_at ?M i' j')" .
  have ih: "mat_at ?M i' j' = (if i' = i then
        (if j' = i then mat_at M i i - (\<Sum>l\<in>{..<m} - {i}. diff_off x b i l)
         else if j' < m then diff_off x b i j' else mat_at M i j')
      else mat_at M i' j')" using Suc.IH m by simp
  have s1: "i = m \<Longrightarrow> {..<Suc m} - {i} = {..<m} - {i}" by auto
  have s2: "i \<noteq> m \<Longrightarrow> (\<Sum>l\<in>{..<Suc m} - {i}. diff_off x b i l)
      = (\<Sum>l\<in>{..<m} - {i}. diff_off x b i l) + diff_off x b i m"
  proof -
    assume "i \<noteq> m"
    then have "{..<Suc m} - {i} = insert m ({..<m} - {i})" by auto
    then show ?thesis by simp
  qed
  show ?case
  proof (cases "i = m")
    case True
    then show ?thesis using eq ih s1 by (auto simp: less_Suc_eq)
  next
    case False
    then show ?thesis using eq ih s2 by (auto simp: less_Suc_eq)
  qed
qed

lemma is_matrix_diff_row [simp]:
  "is_matrix r c M \<Longrightarrow> is_matrix r c (diff_row n x b i M)"
  unfolding diff_row_def by (rule is_matrix_fold) simp_all

lemma diff_row_at:
  assumes M: "is_matrix n n M" and i: "i < n" and i': "i' < n" and j': "j' < n"
  shows "mat_at (diff_row n x b i M) i' j' =
     (if i' = i then
        (if j' = i then - (\<Sum>l\<in>{..<n} - {i}. diff_off x b i l) else diff_off x b i j')
      else mat_at M i' j')"
proof -
  have ok: "is_matrix n n (mat_put M i i 0)" using M by simp
  show ?thesis
    unfolding diff_row_def
    using diff_inner[OF ok i i' j', of n x b] M i i' j'
    by (simp add: mat_at_put)
qed

lemma diff_outer:
  assumes M: "is_matrix n n M" and i': "i' < n" and j': "j' < n"
  shows "m \<le> n \<Longrightarrow>
   mat_at (fold (diff_row n x b) [0..<m] M) i' j' =
     (if i' < m then
        (if j' = i' then - (\<Sum>l\<in>{..<n} - {i'}. diff_off x b i' l) else diff_off x b i' j')
      else mat_at M i' j')"
proof (induction m)
  case 0
  then show ?case by simp
next
  case (Suc m)
  let ?M = "fold (diff_row n x b) [0..<m] M"
  have ok: "is_matrix n n ?M" by (rule is_matrix_fold) (use M in simp_all)
  have m: "m < n" "m \<le> n" using Suc.prems by simp_all
  have "mat_at (fold (diff_row n x b) [0..<Suc m] M) i' j' = mat_at (diff_row n x b m ?M) i' j'"
    by simp
  also have "\<dots> = (if i' = m then
        (if j' = m then - (\<Sum>l\<in>{..<n} - {m}. diff_off x b m l) else diff_off x b m j')
      else mat_at ?M i' j')"
    using ok m(1) i' j' by (rule diff_row_at)
  finally show ?case using Suc.IH m by (auto simp: less_Suc_eq)
qed

lemma is_matrix_diff_loops [simp]: "is_matrix n n (diff_loops n x b)"
  unfolding diff_loops_def by (rule is_matrix_fold) simp_all

lemma diff_loops_at:
  "i < n \<Longrightarrow> j < n \<Longrightarrow>
   mat_at (diff_loops n x b) i j =
     (if j = i then - (\<Sum>l\<in>{..<n} - {i}. diff_off x b i l) else diff_off x b i j)"
  unfolding diff_loops_def
  using diff_outer[of n "Matrix_new n n" i j n x b] by simp

lemma diff_loops_row_sum:
  assumes "i < n"
  shows "(\<Sum>j<n. mat_at (diff_loops n x b) i j) = 0"
proof -
  have "(\<Sum>j<n. mat_at (diff_loops n x b) i j)
      = mat_at (diff_loops n x b) i i + (\<Sum>j\<in>{..<n} - {i}. mat_at (diff_loops n x b) i j)"
    using assms by (intro sum.remove) simp_all
  also have "(\<Sum>j\<in>{..<n} - {i}. mat_at (diff_loops n x b) i j)
      = (\<Sum>j\<in>{..<n} - {i}. diff_off x b i j)"
    using assms by (intro sum.cong) (simp_all add: diff_loops_at)
  finally show ?thesis using assms by (simp add: diff_loops_at)
qed

section \<open>The caches return the values of the generators\<close>

lemma bind_c_ok:
  "m s = (Inr v, s1) \<Longrightarrow> bind_c m f s = f v s1"
  by (simp add: bind_c_def)

lemma bind_c_fail:
  "m s = (Inl e, s1) \<Longrightarrow> bind_c m f s = (Inl e, s1)"
  by (simp add: bind_c_def)

lemma ASSERT_True: "c \<Longrightarrow> ASSERT c s = (Inr (), s)"
  by (simp add: ASSERT_def return_c_def)

lemma ASSERT_False: "\<not> c \<Longrightarrow> ASSERT c s = (Inl RangeError, s)"
  by (simp add: ASSERT_def fail_c_def)

lemma precomputed_out_of_range:
  "\<not> supported P B Q n \<Longrightarrow>
   precomputed_spectral_quantity P static_of static_update generator B Q n s = (Inl RangeError, s)"
  by (auto simp: precomputed_spectral_quantity_def supported_def Let_def bind_c_def
      ASSERT_def return_c_def fail_c_def)

lemma make_static_cache_ok:
  assumes "\<And>k s. k \<in> set ns \<Longrightarrow> caches_ok P s \<Longrightarrow>
             \<exists>s'. generator k s = (Inr (val k), s') \<and> caches_ok P s'"
  shows "caches_ok P s \<Longrightarrow>
     \<exists>s'. make_static_cache generator ns s = (Inr (map val ns), s') \<and> caches_ok P s'"
  using assms
proof (induction ns arbitrary: s)
  case Nil
  then show ?case by (simp add: return_c_def)
next
  case (Cons k ns)
  obtain s1 where 1: "generator k s = (Inr (val k), s1)" "caches_ok P s1"
    using Cons.prems by fastforce
  obtain s2 where 2: "make_static_cache generator ns s1 = (Inr (map val ns), s2)" "caches_ok P s2"
    using Cons.IH[OF 1(2)] Cons.prems(2) by fastforce
  show ?case using 1 2 by (simp add: bind_c_def return_c_def)
qed

lemma cache_range_nth:
  "supported P B Q n \<Longrightarrow>
   map val (cache_range P B Q) ! (n - minimum_number_of_points P B Q) = val n"
proof -
  assume "supported P B Q n"
  then have a: "minimum_number_of_points P B Q \<le> n" "n < maximum_number_of_points P B + 1"
    by (simp_all add: supported_def)
  let ?lo = "minimum_number_of_points P B Q" and ?hi = "maximum_number_of_points P B + 1"
  have "n - ?lo < length [?lo..<?hi]" using a by simp
  then have "map val [?lo..<?hi] ! (n - ?lo) = val ([?lo..<?hi] ! (n - ?lo))"
    by (rule nth_map)
  also have "[?lo..<?hi] ! (n - ?lo) = ?lo + (n - ?lo)"
    using a by (intro nth_upt) simp
  finally show ?thesis using a by (simp add: cache_range_def)
qed

lemma supported_in_range: "k \<in> set (cache_range P B Q) \<longleftrightarrow> supported P B Q k"
  by (auto simp: supported_def cache_range_def)

lemma precomputed_ok:
  assumes gen: "\<And>k s. supported P B Q k \<Longrightarrow> caches_ok P s \<Longrightarrow>
             \<exists>s'. generator k s = (Inr (val k), s') \<and> caches_ok P s'"
    and sel: "\<And>s tbl. caches_ok P s \<Longrightarrow> static_of s (B, Q) = Some tbl \<Longrightarrow>
             tbl = map val (cache_range P B Q)"
    and upd: "\<And>s. caches_ok P s \<Longrightarrow>
             caches_ok P (static_update (\<lambda>st. st((B, Q) \<mapsto> map val (cache_range P B Q))) s)"
    and ok: "caches_ok P s" and n: "supported P B Q n"
  shows "\<exists>s'. precomputed_spectral_quantity P static_of static_update generator B Q n s
               = (Inr (val n), s') \<and> caches_ok P s'"
proof (cases "static_of s (B, Q)")
  case None
  obtain s1 where 1: "make_static_cache generator (cache_range P B Q) s
       = (Inr (map val (cache_range P B Q)), s1)" "caches_ok P s1"
    using make_static_cache_ok[of "cache_range P B Q" P generator val s] gen ok
    by (auto simp: supported_in_range)
  show ?thesis
    using None n 1 upd[OF 1(2)] cache_range_nth[OF n, of val]
    by (simp add: precomputed_spectral_quantity_def supported_def Let_def bind_c_def
        ASSERT_def return_c_def cache_range_def)
next
  case (Some tbl)
  then show ?thesis
    using n ok sel[OF ok Some] cache_range_nth[OF n, of val]
    by (simp add: precomputed_spectral_quantity_def supported_def Let_def bind_c_def
        ASSERT_def return_c_def)
qed

lemma store_ok_upd:
  "store_ok P val st \<Longrightarrow> store_ok P val (st((B, Q) \<mapsto> map (val B Q) (cache_range P B Q)))"
  by (auto simp: store_ok_def)

lemma store_ok_sel:
  "store_ok P val st \<Longrightarrow> st (B, Q) = Some tbl \<Longrightarrow> tbl = map (val B Q) (cache_range P B Q)"
  by (auto simp: store_ok_def)

lemma caches_ok_empty: "caches_ok P empty_caches"
  by (simp add: caches_ok_def empty_caches_def store_ok_def)

lemma points_and_weights_ok:
  assumes "caches_ok P s" "supported P B Q n"
  shows "\<exists>s'. precomputed_spectral_quantity P collocation_cache collocation_cache_update
               (CollocationPointsAndWeightsGenerator P B Q) B Q n s
               = (Inr (compute_collocation_points_and_weights P B Q n), s') \<and> caches_ok P s'"
proof (rule precomputed_ok[OF _ _ _ assms])
  show "\<exists>s'. CollocationPointsAndWeightsGenerator P B Q k s
       = (Inr (compute_collocation_points_and_weights P B Q k), s') \<and> caches_ok P s'"
    if "caches_ok P s" for k s
    using that by (simp add: CollocationPointsAndWeightsGenerator_def return_c_def)
  show "tbl = map (compute_collocation_points_and_weights P B Q) (cache_range P B Q)"
    if "caches_ok P s" "collocation_cache s (B, Q) = Some tbl" for s tbl
    using that by (auto simp: caches_ok_def dest: store_ok_sel)
  show "caches_ok P (collocation_cache_update
          (\<lambda>st. st((B, Q) \<mapsto> map (compute_collocation_points_and_weights P B Q) (cache_range P B Q))) s)"
    if "caches_ok P s" for s
    using that by (simp add: caches_ok_def store_ok_upd)
qed

lemma collocation_points_ok:
  assumes "caches_ok P s" "supported P B Q n"
  shows "\<exists>s'. collocation_points P B Q n s = (Inr (points_of P B Q n), s') \<and> caches_ok P s'"
  using points_and_weights_ok[OF assms]
  by (auto simp: collocation_points_def points_of_def bind_c_def return_c_def)

lemma quadrature_weights_ok:
  assumes "caches_ok P s" "supported P B Q n"
  shows "\<exists>s'. quadrature_weights P B Q n s = (Inr (weights_of P B Q n), s') \<and> caches_ok P s'"
  using points_and_weights_ok[OF assms]
  by (auto simp: quadrature_weights_def weights_of_def bind_c_def return_c_def)

lemma BarycentricWeightsGenerator_ok:
  assumes "caches_ok P s" "supported P B Q n"
  shows "\<exists>s'. BarycentricWeightsGenerator P B Q n s = (Inr (bary_of P B Q n), s') \<and> caches_ok P s'"
  using collocation_points_ok[OF assms]
  by (auto simp: BarycentricWeightsGenerator_def bary_of_def bind_c_def return_c_def)

lemma barycentric_weights_ok:
  assumes "caches_ok P s" "supported P B Q n"
  shows "\<exists>s'. barycentric_weights P B Q n s = (Inr (bary_of P B Q n), s') \<and> caches_ok P s'"
  unfolding barycentric_weights_def
proof (rule precomputed_ok[OF _ _ _ assms])
  show "\<exists>s'. BarycentricWeightsGenerator P B Q k s = (Inr (bary_of P B Q k), s') \<and> caches_ok P s'"
    if "supported P B Q k" "caches_ok P s" for k s
    using that by (intro BarycentricWeightsGenerator_ok)
  show "tbl = map (bary_of P B Q) (cache_range P B Q)"
    if "caches_ok P s" "barycentric_cache s (B, Q) = Some tbl" for s tbl
    using that by (auto simp: caches_ok_def dest: store_ok_sel)
  show "caches_ok P (barycentric_cache_update
          (\<lambda>st. st((B, Q) \<mapsto> map (bary_of P B Q) (cache_range P B Q))) s)"
    if "caches_ok P s" for s
    using that by (simp add: caches_ok_def store_ok_upd)
qed

section \<open>The transform and filter loops\<close>

lemma assign_row:
  assumes M: "is_matrix r c M" and i: "i < r" and i': "i' < r" and j': "j' < c"
  shows "m \<le> c \<Longrightarrow>
    mat_at (fold (\<lambda>j M. mat_put M i j (f j)) [0..<m] M) i' j' =
      (if i' = i \<and> j' < m then f j' else mat_at M i' j')"
proof (induction m)
  case 0
  then show ?case by simp
next
  case (Suc m)
  let ?M = "fold (\<lambda>j M. mat_put M i j (f j)) [0..<m] M"
  have ok: "is_matrix r c ?M" by (rule is_matrix_fold) (use M in simp_all)
  have m: "m < c" "m \<le> c" using Suc.prems by simp_all
  have "mat_at (fold (\<lambda>j M. mat_put M i j (f j)) [0..<Suc m] M) i' j'
      = mat_at (mat_put ?M i m (f m)) i' j'" by simp
  also have "\<dots> = (if i = i' \<and> m = j' then f m else mat_at ?M i' j')"
    using ok i m(1) i' by (rule mat_at_put)
  finally show ?case using Suc.IH m by (auto simp: less_Suc_eq)
qed

lemma is_matrix_assign_row [simp]:
  "is_matrix r c M \<Longrightarrow> is_matrix r c (fold (\<lambda>j M. mat_put M i j (f j)) js M)"
  by (rule is_matrix_fold) simp_all

lemma assign_rows:
  assumes M: "is_matrix n n M" and i': "i' < n" and j': "j' < n"
  shows "m \<le> n \<Longrightarrow>
    mat_at (fold (\<lambda>i M. fold (\<lambda>j M. mat_put M i j (f i j)) [0..<n] M) [0..<m] M) i' j' =
      (if i' < m then f i' j' else mat_at M i' j')"
proof (induction m)
  case 0
  then show ?case by simp
next
  case (Suc m)
  let ?M = "fold (\<lambda>i M. fold (\<lambda>j M. mat_put M i j (f i j)) [0..<n] M) [0..<m] M"
  have ok: "is_matrix n n ?M" by (rule is_matrix_fold) (use M in simp_all)
  have m: "m < n" "m \<le> n" using Suc.prems by simp_all
  have "mat_at (fold (\<lambda>i M. fold (\<lambda>j M. mat_put M i j (f i j)) [0..<n] M) [0..<Suc m] M) i' j'
      = mat_at (fold (\<lambda>j M. mat_put M m j (f m j)) [0..<n] ?M) i' j'" by simp
  also have "\<dots> = (if i' = m \<and> j' < n then f m j' else mat_at ?M i' j')"
    using assign_row[OF ok m(1) i' j', of n "f m"] by simp
  finally show ?case using Suc.IH m j' by (auto simp: less_Suc_eq)
qed

lemma is_matrix_assign_all [simp]:
  "is_matrix r c M \<Longrightarrow> is_matrix r c (assign_all n f M)"
  unfolding assign_all_def by (rule is_matrix_fold) simp_all

lemma assign_all_at:
  "is_matrix n n M \<Longrightarrow> i < n \<Longrightarrow> j < n \<Longrightarrow> mat_at (assign_all n f M) i j = f i j"
  unfolding assign_all_def using assign_rows[of n M i j n f] by simp

lemma is_matrix_vandermonde_of [simp]: "is_matrix n n (vandermonde_of P B Q n)"
  by (simp add: vandermonde_of_def)

lemma vandermonde_of_at:
  "i < n \<Longrightarrow> j < n \<Longrightarrow>
   mat_at (vandermonde_of P B Q n) i j = compute_basis_function_value P B j (points_of P B Q n ! i)"
  by (simp add: vandermonde_of_def assign_all_at)

lemma is_matrix_inverse_of [simp]: "is_matrix n n (inverse_of P B Q n)"
  by (simp add: inverse_of_def invert_analytically_def invert_numerically_def Let_def
      split: Quadrature.split)

lemma inverse_of_Gauss_at:
  "i < n \<Longrightarrow> j < n \<Longrightarrow>
   mat_at (inverse_of P B Gauss n) i j =
     mat_at (vandermonde_of P B Gauss n) j i * weights_of P B Gauss n ! j /
       compute_basis_function_normalization_square P B i"
  by (simp add: inverse_of_def invert_analytically_def assign_all_at)

lemma dgemm_col_length [simp]:
  "length (fold (\<lambda>i c. c[g i := h i c]) is c) = length c"
  by (induction "is" arbitrary: c) simp_all

lemma dgemm_length [simp]:
  "length (dgemm ta tb m n k alpha a lda b ldb beta c ldc) = length c"
proof -
  have "length (fold (\<lambda>j c. fold (\<lambda>i c. c[g i j := h i j c]) is c) js c) = length c"
    for g :: "nat \<Rightarrow> nat \<Rightarrow> nat" and h :: "nat \<Rightarrow> nat \<Rightarrow> real list \<Rightarrow> real" and "is" js c
    by (induction js arbitrary: c) simp_all
  then show ?thesis by (simp add: dgemm_def Let_def)
qed




lemma is_matrix_linear_filter_product [simp]: "is_matrix n n (linear_filter_product n V G)"
  by (simp add: linear_filter_product_def Let_def is_matrix_def Matrix_new_def)


lemma DifferentiationMatrixGenerator_ok:
  assumes "caches_ok P s" "supported P B Q n"
  shows "\<exists>s'. DifferentiationMatrixGenerator P B Q n s = (Inr (diff_of P B Q n), s') \<and> caches_ok P s'"
proof -
  obtain s1 where 1: "collocation_points P B Q n s = (Inr (points_of P B Q n), s1)" "caches_ok P s1"
    using collocation_points_ok[OF assms] by blast
  obtain s2 where 2: "barycentric_weights P B Q n s1 = (Inr (bary_of P B Q n), s2)" "caches_ok P s2"
    using barycentric_weights_ok[OF 1(2) assms(2)] by blast
  show ?thesis
    using 1 2 by (simp add: DifferentiationMatrixGenerator_def diff_of_def bind_c_def return_c_def)
qed

lemma differentiation_matrix_ok:
  assumes "caches_ok P s" "supported P B Q n"
  shows "\<exists>s'. differentiation_matrix P B Q n s = (Inr (diff_of P B Q n), s') \<and> caches_ok P s'"
  unfolding differentiation_matrix_def
proof (rule precomputed_ok[OF _ _ _ assms])
  show "\<exists>s'. DifferentiationMatrixGenerator P B Q k s = (Inr (diff_of P B Q k), s') \<and> caches_ok P s'"
    if "supported P B Q k" "caches_ok P s" for k s
    using that by (intro DifferentiationMatrixGenerator_ok)
  show "tbl = map (diff_of P B Q) (cache_range P B Q)"
    if "caches_ok P s" "differentiation_cache s (B, Q) = Some tbl" for s tbl
    using that by (auto simp: caches_ok_def dest: store_ok_sel)
  show "caches_ok P (differentiation_cache_update
          (\<lambda>st. st((B, Q) \<mapsto> map (diff_of P B Q) (cache_range P B Q))) s)"
    if "caches_ok P s" for s
    using that by (simp add: caches_ok_def store_ok_upd)
qed

lemma SpectralToGridPointsMatrixGenerator_ok:
  assumes "caches_ok P s" "supported P B Q n"
  shows "\<exists>s'. SpectralToGridPointsMatrixGenerator P B Q n s = (Inr (vandermonde_of P B Q n), s')
            \<and> caches_ok P s'"
  using collocation_points_ok[OF assms]
  by (auto simp: SpectralToGridPointsMatrixGenerator_def vandermonde_of_def bind_c_def return_c_def)

lemma spectral_to_grid_points_matrix_ok:
  assumes "caches_ok P s" "supported P B Q n"
  shows "\<exists>s'. spectral_to_grid_points_matrix P B Q n s = (Inr (vandermonde_of P B Q n), s')
            \<and> caches_ok P s'"
  unfolding spectral_to_grid_points_matrix_def
proof (rule precomputed_ok[OF _ _ _ assms])
  show "\<exists>s'. SpectralToGridPointsMatrixGenerator P B Q k s = (Inr (vandermonde_of P B Q k), s')
          \<and> caches_ok P s'"
    if "supported P B Q k" "caches_ok P s" for k s
    using that by (intro SpectralToGridPointsMatrixGenerator_ok)
  show "tbl = map (vandermonde_of P B Q) (cache_range P B Q)"
    if "caches_ok P s" "spectral_to_grid_cache s (B, Q) = Some tbl" for s tbl
    using that by (auto simp: caches_ok_def dest: store_ok_sel)
  show "caches_ok P (spectral_to_grid_cache_update
          (\<lambda>st. st((B, Q) \<mapsto> map (vandermonde_of P B Q) (cache_range P B Q))) s)"
    if "caches_ok P s" for s
    using that by (simp add: caches_ok_def store_ok_upd)
qed

lemma GridPointsToSpectralMatrixGenerator_ok:
  assumes "caches_ok P s" "supported P B Q n"
  shows "\<exists>s'. GridPointsToSpectralMatrixGenerator P B Q n s = (Inr (inverse_of P B Q n), s')
            \<and> caches_ok P s'"
proof (cases "Q = Gauss")
  case True
  obtain s1 where 1: "quadrature_weights P B Gauss n s = (Inr (weights_of P B Gauss n), s1)"
      "caches_ok P s1"
    using quadrature_weights_ok[OF assms] True by blast
  obtain s2 where 2: "spectral_to_grid_points_matrix P B Gauss n s1
      = (Inr (vandermonde_of P B Gauss n), s2)" "caches_ok P s2"
    using spectral_to_grid_points_matrix_ok[OF 1(2)] assms(2) True by blast
  show ?thesis
    using True 1 2
    by (simp add: GridPointsToSpectralMatrixGenerator_def inverse_of_def bind_c_def return_c_def)
next
  case False
  obtain s1 where 1: "spectral_to_grid_points_matrix P B Q n s
      = (Inr (vandermonde_of P B Q n), s1)" "caches_ok P s1"
    using spectral_to_grid_points_matrix_ok[OF assms] by blast
  show ?thesis
    using False 1
    by (cases Q)
      (simp_all add: GridPointsToSpectralMatrixGenerator_def inverse_of_def bind_c_def return_c_def)
qed

lemma grid_points_to_spectral_matrix_ok:
  assumes "caches_ok P s" "supported P B Q n"
  shows "\<exists>s'. grid_points_to_spectral_matrix P B Q n s = (Inr (inverse_of P B Q n), s')
            \<and> caches_ok P s'"
  unfolding grid_points_to_spectral_matrix_def
proof (rule precomputed_ok[OF _ _ _ assms])
  show "\<exists>s'. GridPointsToSpectralMatrixGenerator P B Q k s = (Inr (inverse_of P B Q k), s')
          \<and> caches_ok P s'"
    if "supported P B Q k" "caches_ok P s" for k s
    using that by (intro GridPointsToSpectralMatrixGenerator_ok)
  show "tbl = map (inverse_of P B Q) (cache_range P B Q)"
    if "caches_ok P s" "grid_to_spectral_cache s (B, Q) = Some tbl" for s tbl
    using that by (auto simp: caches_ok_def dest: store_ok_sel)
  show "caches_ok P (grid_to_spectral_cache_update
          (\<lambda>st. st((B, Q) \<mapsto> map (inverse_of P B Q) (cache_range P B Q))) s)"
    if "caches_ok P s" for s
    using that by (simp add: caches_ok_def store_ok_upd)
qed

lemma LinearFilterMatrixGenerator_ok:
  assumes "caches_ok P s" "supported P B Q n"
  shows "\<exists>s'. LinearFilterMatrixGenerator P B Q n s = (Inr (filter_of P B Q n), s') \<and> caches_ok P s'"
proof -
  obtain s1 where 1: "spectral_to_grid_points_matrix P B Q n s
      = (Inr (vandermonde_of P B Q n), s1)" "caches_ok P s1"
    using spectral_to_grid_points_matrix_ok[OF assms] by blast
  obtain s2 where 2: "grid_points_to_spectral_matrix P B Q n s1
      = (Inr (inverse_of P B Q n), s2)" "caches_ok P s2"
    using grid_points_to_spectral_matrix_ok[OF 1(2) assms(2)] by blast
  show ?thesis
    using 1 2 by (simp add: LinearFilterMatrixGenerator_def filter_of_def bind_c_def return_c_def)
qed

lemma linear_filter_matrix_ok:
  assumes "caches_ok P s" "supported P B Q n"
  shows "\<exists>s'. linear_filter_matrix P B Q n s = (Inr (filter_of P B Q n), s') \<and> caches_ok P s'"
  unfolding linear_filter_matrix_def
proof (rule precomputed_ok[OF _ _ _ assms])
  show "\<exists>s'. LinearFilterMatrixGenerator P B Q k s = (Inr (filter_of P B Q k), s') \<and> caches_ok P s'"
    if "supported P B Q k" "caches_ok P s" for k s
    using that by (intro LinearFilterMatrixGenerator_ok)
  show "tbl = map (filter_of P B Q) (cache_range P B Q)"
    if "caches_ok P s" "linear_filter_cache s (B, Q) = Some tbl" for s tbl
    using that by (auto simp: caches_ok_def dest: store_ok_sel)
  show "caches_ok P (linear_filter_cache_update
          (\<lambda>st. st((B, Q) \<mapsto> map (filter_of P B Q) (cache_range P B Q))) s)"
    if "caches_ok P s" for s
    using that by (simp add: caches_ok_def store_ok_upd)
qed

lemma interpolation_matrix_ok:
  assumes "caches_ok P s" "supported P B Q n"
  shows "\<exists>s'. interpolation_matrix P B Q n ts s
      = (Inr (interp_loops P n (points_of P B Q n) (bary_of P B Q n) ts), s') \<and> caches_ok P s'"
proof -
  obtain s1 where 1: "collocation_points P B Q n s = (Inr (points_of P B Q n), s1)" "caches_ok P s1"
    using collocation_points_ok[OF assms] by blast
  obtain s2 where 2: "barycentric_weights P B Q n s1 = (Inr (bary_of P B Q n), s2)" "caches_ok P s2"
    using barycentric_weights_ok[OF 1(2) assms(2)] by blast
  show ?thesis
    using 1 2 assms(2)
    by (simp add: interpolation_matrix_def supported_def Let_def ASSERT_def bind_c_def return_c_def)
qed

lemma interpolation_matrix_out_of_range:
  "\<not> supported P B Q n \<Longrightarrow> interpolation_matrix P B Q n ts s = (Inl RangeError, s)"
  by (auto simp: interpolation_matrix_def supported_def Let_def ASSERT_def bind_c_def
      return_c_def fail_c_def)

section \<open>The interpolation loops\<close>

lemma interp_scan_fold:
  assumes M: "is_matrix r c M" and k: "k < r"
  shows "m \<le> c \<Longrightarrow>
    is_matrix r c (fst (fold (\<lambda>j (M, row_has_match).
             let M0 = mat_put M k j 0
             in if eq t (x ! j) then (mat_put M0 k j 1, True) else (M0, row_has_match))
       [0..<m] (M, f0))) \<and>
    snd (fold (\<lambda>j (M, row_has_match).
             let M0 = mat_put M k j 0
             in if eq t (x ! j) then (mat_put M0 k j 1, True) else (M0, row_has_match))
       [0..<m] (M, f0)) = (f0 \<or> (\<exists>j<m. eq t (x ! j))) \<and>
    (\<forall>i'<r. \<forall>j'<c. mat_at (fst (fold (\<lambda>j (M, row_has_match).
             let M0 = mat_put M k j 0
             in if eq t (x ! j) then (mat_put M0 k j 1, True) else (M0, row_has_match))
       [0..<m] (M, f0))) i' j' =
       (if i' = k \<and> j' < m then (if eq t (x ! j') then 1 else 0) else mat_at M i' j'))"
proof (induction m)
  case 0
  then show ?case using M by simp
next
  case (Suc m)
  define step where "step = (\<lambda>j (M, row_has_match).
             let M0 = mat_put M k j 0
             in if eq t (x ! j) then (mat_put M0 k j (1::real), True) else (M0, row_has_match))"
  define S where "S = fold step [0..<m] (M, f0)"
  have m: "m < c" "m \<le> c" using Suc.prems by simp_all
  have ih: "is_matrix r c (fst S)" "snd S = (f0 \<or> (\<exists>j<m. eq t (x ! j)))"
    "\<And>i' j'. i' < r \<Longrightarrow> j' < c \<Longrightarrow> mat_at (fst S) i' j' =
       (if i' = k \<and> j' < m then (if eq t (x ! j') then 1 else 0) else mat_at M i' j')"
    using Suc.IH[OF m(2)] by (simp_all add: S_def step_def)
  have M0: "is_matrix r c (mat_put (fst S) k m 0)" using ih(1) by simp
  have "fold step [0..<Suc m] (M, f0) = step m S" by (simp add: S_def)
  also have "\<dots> = (if eq t (x ! m) then (mat_put (mat_put (fst S) k m 0) k m 1, True)
       else (mat_put (fst S) k m 0, snd S))"
    by (simp add: step_def split_beta Let_def)
  finally have next_state: "fold step [0..<Suc m] (M, f0) =
      (if eq t (x ! m) then (mat_put (mat_put (fst S) k m 0) k m 1, True)
       else (mat_put (fst S) k m 0, snd S))" .
  have at0: "mat_at (mat_put (fst S) k m 0) i' j' = (if k = i' \<and> m = j' then 0 else mat_at (fst S) i' j')"
    if "i' < r" for i' j'
    using ih(1) k m(1) that by (rule mat_at_put)
  have at1: "mat_at (mat_put (mat_put (fst S) k m 0) k m 1) i' j'
      = (if k = i' \<and> m = j' then 1 else mat_at (mat_put (fst S) k m 0) i' j')"
    if "i' < r" for i' j'
    using M0 k m(1) that by (rule mat_at_put)
  have "is_matrix r c (fst (fold step [0..<Suc m] (M, f0)))"
    unfolding next_state using M0 by simp
  moreover have "snd (fold step [0..<Suc m] (M, f0)) = (f0 \<or> (\<exists>j<Suc m. eq t (x ! j)))"
    unfolding next_state using ih(2) by (auto simp: less_Suc_eq)
  moreover have "mat_at (fst (fold step [0..<Suc m] (M, f0))) i' j' =
       (if i' = k \<and> j' < Suc m then (if eq t (x ! j') then 1 else 0) else mat_at M i' j')"
    if "i' < r" "j' < c" for i' j'
    unfolding next_state using that ih(3)[OF that] by (auto simp: at0 at1 less_Suc_eq)
  ultimately show ?case unfolding step_def by blast
qed

lemma interp_scan_props:
  assumes "is_matrix r n M" "k < r"
  shows "is_matrix r n (fst (interp_scan P n x t k M))"
    and "snd (interp_scan P n x t k M) = (\<exists>j<n. equal_within_roundoff P t (x ! j))"
    and "\<And>i' j'. i' < r \<Longrightarrow> j' < n \<Longrightarrow> mat_at (fst (interp_scan P n x t k M)) i' j' =
       (if i' = k then (if equal_within_roundoff P t (x ! j') then 1 else 0) else mat_at M i' j')"
  using interp_scan_fold[OF assms le_refl, where eq = "equal_within_roundoff P" and t = t and x = x and ?f0.0 = False]
  by (simp_all add: interp_scan_def)

lemma interp_weights_fold:
  assumes M: "is_matrix r c M" and k: "k < r"
  shows "m \<le> c \<Longrightarrow>
    is_matrix r c (fst (fold (\<lambda>j (M, row_sum).
             let M1 = mat_put M k j (b ! j / (t - x ! j))
             in (M1, row_sum + mat_at M1 k j))
       [0..<m] (M, s0))) \<and>
    snd (fold (\<lambda>j (M, row_sum).
             let M1 = mat_put M k j (b ! j / (t - x ! j))
             in (M1, row_sum + mat_at M1 k j))
       [0..<m] (M, s0)) = s0 + (\<Sum>j<m. b ! j / (t - x ! j)) \<and>
    (\<forall>i'<r. \<forall>j'<c. mat_at (fst (fold (\<lambda>j (M, row_sum).
             let M1 = mat_put M k j (b ! j / (t - x ! j))
             in (M1, row_sum + mat_at M1 k j))
       [0..<m] (M, s0))) i' j' =
       (if i' = k \<and> j' < m then b ! j' / (t - x ! j') else mat_at M i' j'))"
proof (induction m)
  case 0
  then show ?case using M by simp
next
  case (Suc m)
  define step where "step = (\<lambda>j (M, row_sum::real).
             let M1 = mat_put M k j (b ! j / (t - x ! j))
             in (M1, row_sum + mat_at M1 k j))"
  define S where "S = fold step [0..<m] (M, s0)"
  have m: "m < c" "m \<le> c" using Suc.prems by simp_all
  have ih: "is_matrix r c (fst S)" "snd S = s0 + (\<Sum>j<m. b ! j / (t - x ! j))"
    "\<And>i' j'. i' < r \<Longrightarrow> j' < c \<Longrightarrow> mat_at (fst S) i' j' =
       (if i' = k \<and> j' < m then b ! j' / (t - x ! j') else mat_at M i' j')"
    using Suc.IH[OF m(2)] by (simp_all add: S_def step_def)
  let ?M1 = "mat_put (fst S) k m (b ! m / (t - x ! m))"
  have M1: "is_matrix r c ?M1" using ih(1) by simp
  have at1: "mat_at ?M1 i' j' = (if k = i' \<and> m = j' then b ! m / (t - x ! m) else mat_at (fst S) i' j')"
    if "i' < r" for i' j'
    using ih(1) k m(1) that by (rule mat_at_put)
  have "fold step [0..<Suc m] (M, s0) = step m S" by (simp add: S_def)
  also have "\<dots> = (?M1, snd S + b ! m / (t - x ! m))"
    using at1[OF k, of m] by (simp add: step_def split_beta Let_def)
  finally have next_state: "fold step [0..<Suc m] (M, s0) = (?M1, snd S + b ! m / (t - x ! m))" .
  have "is_matrix r c (fst (fold step [0..<Suc m] (M, s0)))"
    unfolding next_state using M1 by simp
  moreover have "snd (fold step [0..<Suc m] (M, s0)) = s0 + (\<Sum>j<Suc m. b ! j / (t - x ! j))"
    unfolding next_state using ih(2) by simp
  moreover have "mat_at (fst (fold step [0..<Suc m] (M, s0))) i' j' =
       (if i' = k \<and> j' < Suc m then b ! j' / (t - x ! j') else mat_at M i' j')"
    if "i' < r" "j' < c" for i' j'
    unfolding next_state using that ih(3)[OF that] by (auto simp: at1 less_Suc_eq)
  ultimately show ?case unfolding step_def by blast
qed

lemma interp_weights_props:
  assumes "is_matrix r n M" "k < r"
  shows "is_matrix r n (fst (interp_weights n x b t k M))"
    and "snd (interp_weights n x b t k M) = (\<Sum>j<n. b ! j / (t - x ! j))"
    and "\<And>i' j'. i' < r \<Longrightarrow> j' < n \<Longrightarrow> mat_at (fst (interp_weights n x b t k M)) i' j' =
       (if i' = k then b ! j' / (t - x ! j') else mat_at M i' j')"
  using interp_weights_fold[OF assms le_refl, where b = b and t = t and x = x and ?s0.0 = 0]
  by (simp_all add: interp_weights_def)

lemma interp_normalize_fold:
  assumes M: "is_matrix r c M" and k: "k < r"
  shows "m \<le> c \<Longrightarrow>
    is_matrix r c (fold (\<lambda>j M. mat_put M k j (mat_at M k j / s)) [0..<m] M) \<and>
    (\<forall>i'<r. \<forall>j'<c. mat_at (fold (\<lambda>j M. mat_put M k j (mat_at M k j / s)) [0..<m] M) i' j' =
      (if i' = k \<and> j' < m then mat_at M k j' / s else mat_at M i' j'))"
proof (induction m)
  case 0
  then show ?case using M by simp
next
  case (Suc m)
  define S where "S = fold (\<lambda>j M. mat_put M k j (mat_at M k j / s)) [0..<m] M"
  have m: "m < c" "m \<le> c" using Suc.prems by simp_all
  have ih: "is_matrix r c S"
    "\<And>i' j'. i' < r \<Longrightarrow> j' < c \<Longrightarrow> mat_at S i' j' =
       (if i' = k \<and> j' < m then mat_at M k j' / s else mat_at M i' j')"
    using Suc.IH[OF m(2)] by (simp_all add: S_def)
  have next_state: "fold (\<lambda>j M. mat_put M k j (mat_at M k j / s)) [0..<Suc m] M
      = mat_put S k m (mat_at M k m / s)"
    using ih(2)[OF k m(1)] by (simp add: S_def)
  have at1: "mat_at (mat_put S k m v) i' j' = (if k = i' \<and> m = j' then v else mat_at S i' j')"
    if "i' < r" for i' j' v
    using ih(1) k m(1) that by (rule mat_at_put)
  have "is_matrix r c (fold (\<lambda>j M. mat_put M k j (mat_at M k j / s)) [0..<Suc m] M)"
    unfolding next_state using ih(1) by simp
  moreover have "mat_at (fold (\<lambda>j M. mat_put M k j (mat_at M k j / s)) [0..<Suc m] M) i' j' =
      (if i' = k \<and> j' < Suc m then mat_at M k j' / s else mat_at M i' j')"
    if "i' < r" "j' < c" for i' j'
    unfolding next_state using that ih(2)[OF that] by (auto simp: at1 less_Suc_eq)
  ultimately show ?case by blast
qed

lemma interp_normalize_props:
  assumes "is_matrix r n M" "k < r"
  shows "is_matrix r n (interp_normalize n s k M)"
    and "\<And>i' j'. i' < r \<Longrightarrow> j' < n \<Longrightarrow> mat_at (interp_normalize n s k M) i' j' =
       (if i' = k then mat_at M k j' / s else mat_at M i' j')"
  using interp_normalize_fold[OF assms le_refl, where s = s]
  by (simp_all add: interp_normalize_def)

lemma interp_row_props:
  assumes M: "is_matrix r n M" and k: "k < r"
  shows "is_matrix r n (interp_row P n x b ts k M)"
    and "\<And>i' j'. i' < r \<Longrightarrow> j' < n \<Longrightarrow> mat_at (interp_row P n x b ts k M) i' j' =
       (if i' = k then interp_entry P n x b (ts ! k) j' else mat_at M i' j')"
proof -
  define S where "S = interp_scan P n x (ts ! k) k M"
  define W where "W = interp_weights n x b (ts ! k) k (fst S)"
  note s = interp_scan_props[OF M k, where P = P and x = x and t = "ts ! k", folded S_def]
  note w = interp_weights_props[OF s(1) k, where x = x and b = b and t = "ts ! k", folded W_def]
  note z = interp_normalize_props[OF w(1) k, where s = "snd W"]
  have row: "interp_row P n x b ts k M =
      (if \<not> snd S then interp_normalize n (snd W) k (fst W) else fst S)"
    by (simp add: interp_row_def S_def W_def split_beta)
  show "is_matrix r n (interp_row P n x b ts k M)"
    unfolding row using s(1) z(1) by simp
  show "mat_at (interp_row P n x b ts k M) i' j' =
       (if i' = k then interp_entry P n x b (ts ! k) j' else mat_at M i' j')"
    if "i' < r" "j' < n" for i' j'
    unfolding row using that k s(2) s(3)[OF that] s(3)[OF k that(2)] w(2) w(3)[OF that]
      w(3)[OF k that(2)] z(2)[OF that]
    by (auto simp: interp_entry_def)
qed

lemma interp_rows:
  assumes M: "is_matrix r n M"
  shows "m \<le> r \<Longrightarrow>
    is_matrix r n (fold (interp_row P n x b ts) [0..<m] M) \<and>
    (\<forall>i'<r. \<forall>j'<n. mat_at (fold (interp_row P n x b ts) [0..<m] M) i' j' =
       (if i' < m then interp_entry P n x b (ts ! i') j' else mat_at M i' j'))"
proof (induction m)
  case 0
  then show ?case using M by simp
next
  case (Suc m)
  define S where "S = fold (interp_row P n x b ts) [0..<m] M"
  have m: "m < r" "m \<le> r" using Suc.prems by simp_all
  have ih: "is_matrix r n S"
    "\<And>i' j'. i' < r \<Longrightarrow> j' < n \<Longrightarrow> mat_at S i' j' =
       (if i' < m then interp_entry P n x b (ts ! i') j' else mat_at M i' j')"
    using Suc.IH[OF m(2)] by (simp_all add: S_def)
  have next_state: "fold (interp_row P n x b ts) [0..<Suc m] M = interp_row P n x b ts m S"
    by (simp add: S_def)
  note r = interp_row_props[OF ih(1) m(1), where P = P and x = x and b = b and ts = ts]
  show ?case
    unfolding next_state using r(1) r(2) ih(2) by (auto simp: less_Suc_eq)
qed

lemma interp_loops_props:
  shows "is_matrix (length ts) n (interp_loops P n x b ts)"
    and "k < length ts \<Longrightarrow> j < n \<Longrightarrow>
      mat_at (interp_loops P n x b ts) k j = interp_entry P n x b (ts ! k) j"
  using interp_rows[OF is_matrix_new[of "length ts" n] le_refl, where P = P and x = x and b = b and ts = ts]
  by (simp_all add: interp_loops_def Let_def)

section \<open>Two identities of sums\<close>





section \<open>Products of matrices and the filter\<close>

lemma is_matrix_mat_of [simp]: "is_matrix r c (mat_of r c f)"
  by (simp add: is_matrix_def mat_of_def)

lemma mat_at_mat_of: "i < r \<Longrightarrow> j < c \<Longrightarrow> mat_at (mat_of r c f) i j = f i j"
  using index_bound[of i r j c] by (simp add: mat_at_def mat_of_def)

lemma rows_mat_of [simp]: "rows (mat_of r c f) = r" and columns_mat_of [simp]: "columns (mat_of r c f) = c"
  by (simp_all add: mat_of_def)

lemma sum_list_upt: "(\<Sum>l\<leftarrow>[0..<k]. f l) = (\<Sum>l<k. f l)" for f :: "nat \<Rightarrow> real"
  by (simp add: sum_list_sum_nth atLeast0LessThan)

lemma mat_mult_at:
  "i < rows A \<Longrightarrow> j < columns B \<Longrightarrow>
   mat_at (mat_mult A B) i j = (\<Sum>l<columns A. mat_at A i l * mat_at B l j)"
  by (simp add: mat_mult_def mat_at_mat_of sum_list_upt)

lemma is_matrix_mat_mult [simp]: "is_matrix (rows A) (columns B) (mat_mult A B)"
  by (simp add: mat_mult_def)

lemma first_columns_at: "i < rows A \<Longrightarrow> j < k \<Longrightarrow> mat_at (first_columns k A) i j = mat_at A i j"
  by (simp add: first_columns_def mat_at_mat_of)

lemma first_rows_at: "i < k \<Longrightarrow> j < columns A \<Longrightarrow> mat_at (first_rows k A) i j = mat_at A i j"
  by (simp add: first_rows_def mat_at_mat_of)

lemma identity_matrix_at:
  "i < n \<Longrightarrow> j < n \<Longrightarrow> mat_at (identity_matrix n) i j = (if i = j then 1 else 0)"
  by (simp add: identity_matrix_def mat_at_mat_of)

lemma is_matrix_identity [simp]: "is_matrix n n (identity_matrix n)"
  by (simp add: identity_matrix_def)



section \<open>The two transforms in exact arithmetic\<close>

text \<open>The generic generator returns, element by element, what \<^verbatim>\<open>blaze::invert\<close> makes
  of the Vandermonde matrix; the analytic expression is a left inverse of the
  Vandermonde matrix when the basis functions are orthogonal under the quadrature,
  with the squares of their norms as the basis says.\<close>

lemma inverse_of_numeric_at:
  "Q \<noteq> Gauss \<Longrightarrow> i < n \<Longrightarrow> j < n \<Longrightarrow>
   mat_at (inverse_of P B Q n) i j =
     mat_at (blaze_invert P \<lparr>rows = n, columns = n,
                            data = take (n * n) (data (vandermonde_of P B Q n))\<rparr>) i j"
  by (cases Q) (simp_all add: inverse_of_def invert_numerically_def Let_def assign_all_at)

lemma work_is_vandermonde:
  "\<lparr>rows = n, columns = n, data = take (n * n) (data (vandermonde_of P B Q n))\<rparr>
     = vandermonde_of P B Q n"
  using is_matrix_vandermonde_of[of n P B Q] by (simp add: is_matrix_def)

lemma analytic_left_inverse:
  assumes orth: "\<And>i k. i < n \<Longrightarrow> k < n \<Longrightarrow>
      (\<Sum>j<n. weights_of P B Gauss n ! j *
               compute_basis_function_value P B i (points_of P B Gauss n ! j) *
               compute_basis_function_value P B k (points_of P B Gauss n ! j))
        = (if i = k then compute_basis_function_normalization_square P B i else 0)"
    and norm: "\<And>i. i < n \<Longrightarrow> compute_basis_function_normalization_square P B i \<noteq> 0"
  shows "mat_mult (inverse_of P B Gauss n) (vandermonde_of P B Gauss n) = identity_matrix n"
proof (rule mat_eqI[of n n])
  let ?V = "vandermonde_of P B Gauss n" and ?G = "inverse_of P B Gauss n"
  let ?w = "weights_of P B Gauss n" and ?x = "points_of P B Gauss n"
  let ?\<gamma> = "compute_basis_function_normalization_square P B"
  let ?\<Phi> = "compute_basis_function_value P B"
  have d: "rows ?V = n" "rows ?G = n" "columns ?V = n" "columns ?G = n"
    using is_matrix_vandermonde_of[of n P B Gauss] is_matrix_inverse_of[of n P B Gauss]
    by (simp_all add: is_matrix_def)
  show "is_matrix n n (mat_mult ?G ?V)" using is_matrix_mat_mult[of ?G ?V] d by simp
  show "is_matrix n n (identity_matrix n)" by simp
  fix i k assume ik: "i < n" "k < n"
  have "mat_at (mat_mult ?G ?V) i k = (\<Sum>j<n. mat_at ?G i j * mat_at ?V j k)"
    using ik d by (simp add: mat_mult_at)
  also have "\<dots> = (\<Sum>j<n. (?w ! j * ?\<Phi> i (?x ! j) * ?\<Phi> k (?x ! j)) / ?\<gamma> i)"
    using ik by (intro sum.cong refl) (simp add: inverse_of_Gauss_at vandermonde_of_at mult_ac)
  also have "\<dots> = (\<Sum>j<n. ?w ! j * ?\<Phi> i (?x ! j) * ?\<Phi> k (?x ! j)) / ?\<gamma> i"
    by (rule sum_divide_distrib[symmetric])
  also have "\<dots> = (if i = k then 1 else 0)"
    using orth[OF ik] norm[OF ik(1)] by auto
  finally show "mat_at (mat_mult ?G ?V) i k = mat_at (identity_matrix n) i k"
    using ik by (simp add: identity_matrix_at)
qed

text \<open>The same for the leading \<open>K\<close> modes only, on either path: the leading rows of the
  grid-to-spectral matrix times the leading columns of the Vandermonde matrix are the
  identity when, on the analytic path, the first \<open>K\<close> basis functions are orthogonal
  under the quadrature, and when, on the generic path, \<^verbatim>\<open>blaze::invert\<close> returns a left
  inverse of the Vandermonde matrix.\<close>

lemma left_inverse_on_modes:
  assumes K: "K \<le> n"
    and analytic: "Q = Gauss \<Longrightarrow> (\<forall>i<K. \<forall>k<K.
      compute_basis_function_normalization_square P B i \<noteq> 0 \<and>
      (\<Sum>j<n. weights_of P B Gauss n ! j *
               compute_basis_function_value P B i (points_of P B Gauss n ! j) *
               compute_basis_function_value P B k (points_of P B Gauss n ! j))
        = (if i = k then compute_basis_function_normalization_square P B i else 0))"
    and numeric: "Q \<noteq> Gauss \<Longrightarrow>
      is_matrix n n (blaze_invert P (vandermonde_of P B Q n)) \<and>
      mat_mult (blaze_invert P (vandermonde_of P B Q n)) (vandermonde_of P B Q n)
        = identity_matrix n"
  shows "mat_mult (first_rows K (inverse_of P B Q n)) (first_columns K (vandermonde_of P B Q n))
           = identity_matrix K"
proof (rule mat_eqI[of K K])
  let ?V = "vandermonde_of P B Q n" and ?G = "inverse_of P B Q n"
  have d: "rows ?V = n" "rows ?G = n" "columns ?V = n" "columns ?G = n"
    using is_matrix_vandermonde_of[of n P B Q] is_matrix_inverse_of[of n P B Q]
    by (simp_all add: is_matrix_def)
  show "is_matrix K K (mat_mult (first_rows K ?G) (first_columns K ?V))"
    using is_matrix_mat_mult[of "first_rows K ?G" "first_columns K ?V"]
    by (simp add: first_rows_def first_columns_def)
  show "is_matrix K K (identity_matrix K)" by simp
  fix l l' assume ll: "l < K" "l' < K"
  then have ln: "l < n" "l' < n" using K by simp_all
  have "mat_at (mat_mult (first_rows K ?G) (first_columns K ?V)) l l'
      = (\<Sum>j<n. mat_at (first_rows K ?G) l j * mat_at (first_columns K ?V) j l')"
    using ll d by (subst mat_mult_at) (simp_all add: first_columns_def first_rows_def)
  also have "\<dots> = (\<Sum>j<n. mat_at ?G l j * mat_at ?V j l')"
    using ll d by (intro sum.cong refl) (simp add: first_columns_at first_rows_at)
  also have "\<dots> = (if l = l' then 1 else 0)"
  proof (cases "Q = Gauss")
    case True
    let ?w = "weights_of P B Gauss n" and ?x = "points_of P B Gauss n"
    let ?\<gamma> = "compute_basis_function_normalization_square P B"
    let ?\<Phi> = "compute_basis_function_value P B"
    have o: "?\<gamma> l \<noteq> 0" "(\<Sum>j<n. ?w ! j * ?\<Phi> l (?x ! j) * ?\<Phi> l' (?x ! j))
        = (if l = l' then ?\<gamma> l else 0)"
      using analytic[OF True] ll by simp_all
    have "(\<Sum>j<n. mat_at ?G l j * mat_at ?V j l')
        = (\<Sum>j<n. (?w ! j * ?\<Phi> l (?x ! j) * ?\<Phi> l' (?x ! j)) / ?\<gamma> l)"
      unfolding True using ln
      by (intro sum.cong refl) (simp add: inverse_of_Gauss_at vandermonde_of_at mult_ac)
    also have "\<dots> = (\<Sum>j<n. ?w ! j * ?\<Phi> l (?x ! j) * ?\<Phi> l' (?x ! j)) / ?\<gamma> l"
      by (rule sum_divide_distrib[symmetric])
    also have "\<dots> = (if l = l' then 1 else 0)" using o by auto
    finally show ?thesis .
  next
    case False
    let ?W = "blaze_invert P ?V"
    have W: "mat_mult ?W ?V = identity_matrix n" "rows ?W = n" "columns ?W = n"
      using numeric[OF False] by (simp_all add: is_matrix_def)
    have "(\<Sum>j<n. mat_at ?G l j * mat_at ?V j l') = (\<Sum>j<n. mat_at ?W l j * mat_at ?V j l')"
      using ln False
      by (intro sum.cong refl) (simp add: inverse_of_numeric_at work_is_vandermonde)
    also have "\<dots> = mat_at (mat_mult ?W ?V) l l'"
      using ln d W(2,3) by (simp add: mat_mult_at)
    also have "\<dots> = (if l = l' then 1 else 0)"
      unfolding W(1) using ln by (simp add: identity_matrix_at)
    finally show ?thesis .
  qed
  finally show "mat_at (mat_mult (first_rows K ?G) (first_columns K ?V)) l l'
      = mat_at (identity_matrix K) l l'"
    using ll by (simp add: identity_matrix_at)
qed

section \<open>The caches keep what they returned\<close>

lemma precomputed_again:
  assumes lens: "\<And>f s. static_of (static_update f s) = f (static_of s)"
    and run: "precomputed_spectral_quantity P static_of static_update generator B Q n s = (Inr v, s')"
  shows "precomputed_spectral_quantity P static_of static_update generator B Q n s' = (Inr v, s')"
proof -
  have n: "supported P B Q n"
    using run precomputed_out_of_range[of P B Q n static_of static_update generator s] by auto
  then have r: "minimum_number_of_points P B Q \<le> n" "n \<le> maximum_number_of_points P B"
    by (simp_all add: supported_def)
  have hit: "precomputed_spectral_quantity P static_of static_update generator B Q n t
      = (Inr (tbl ! (n - minimum_number_of_points P B Q)), t)"
    if "static_of t (B, Q) = Some tbl" for t tbl
    using that r
    by (simp add: precomputed_spectral_quantity_def Let_def bind_c_def ASSERT_def return_c_def)
  show ?thesis
  proof (cases "static_of s (B, Q)")
    case (Some tbl)
    then show ?thesis using run hit[OF Some] by simp
  next
    case None
    obtain res s1 where m: "make_static_cache generator
        [minimum_number_of_points P B Q..<maximum_number_of_points P B + 1] s = (res, s1)"
      by (cases "make_static_cache generator
        [minimum_number_of_points P B Q..<maximum_number_of_points P B + 1] s") blast
    have miss: "precomputed_spectral_quantity P static_of static_update generator B Q n s
      = (case res of Inl e \<Rightarrow> (Inl e, s1)
         | Inr tbl \<Rightarrow> (Inr (tbl ! (n - minimum_number_of_points P B Q)),
                       static_update (\<lambda>st. st((B, Q) \<mapsto> tbl)) s1))"
      using None r m
      by (simp add: precomputed_spectral_quantity_def Let_def bind_c_def ASSERT_def return_c_def
          split: sum.split)
    then obtain tbl where t: "res = Inr tbl" "v = tbl ! (n - minimum_number_of_points P B Q)"
        "s' = static_update (\<lambda>st. st((B, Q) \<mapsto> tbl)) s1"
      using run by (cases res) simp_all
    have "static_of s' (B, Q) = Some tbl" unfolding t(3) lens by simp
    then show ?thesis using hit t(2) by simp
  qed
qed

lemma points_and_weights_again:
  assumes "bind_c (precomputed_spectral_quantity P collocation_cache collocation_cache_update
               generator B Q n) (\<lambda>pw. return_c (f pw)) s = (Inr v, s')"
  shows "bind_c (precomputed_spectral_quantity P collocation_cache collocation_cache_update
               generator B Q n) (\<lambda>pw. return_c (f pw)) s' = (Inr v, s')"
proof -
  let ?get = "precomputed_spectral_quantity P collocation_cache collocation_cache_update
               generator B Q n"
  obtain r s1 where p: "?get s = (r, s1)" by (cases "?get s") blast
  obtain pw where r: "r = Inr pw" "v = f pw" "s' = s1"
    using assms p by (cases r) (simp_all add: bind_c_def return_c_def)
  have "?get s' = (Inr pw, s')"
    using p unfolding r by (intro precomputed_again) simp_all
  then show ?thesis using r(2) by (simp add: bind_c_def return_c_def)
qed

lemma collocation_points_again:
  "collocation_points P B Q n s = (Inr v, s') \<Longrightarrow> collocation_points P B Q n s' = (Inr v, s')"
  unfolding collocation_points_def by (rule points_and_weights_again)

lemma quadrature_weights_again:
  "quadrature_weights P B Q n s = (Inr v, s') \<Longrightarrow> quadrature_weights P B Q n s' = (Inr v, s')"
  unfolding quadrature_weights_def by (rule points_and_weights_again)

lemma barycentric_weights_again:
  "barycentric_weights P B Q n s = (Inr v, s') \<Longrightarrow> barycentric_weights P B Q n s' = (Inr v, s')"
  unfolding barycentric_weights_def by (rule precomputed_again) simp_all

lemma differentiation_matrix_again:
  "differentiation_matrix P B Q n s = (Inr v, s') \<Longrightarrow>
   differentiation_matrix P B Q n s' = (Inr v, s')"
  unfolding differentiation_matrix_def by (rule precomputed_again) simp_all

lemma spectral_to_grid_points_matrix_again:
  "spectral_to_grid_points_matrix P B Q n s = (Inr v, s') \<Longrightarrow>
   spectral_to_grid_points_matrix P B Q n s' = (Inr v, s')"
  unfolding spectral_to_grid_points_matrix_def by (rule precomputed_again) simp_all

lemma grid_points_to_spectral_matrix_again:
  "grid_points_to_spectral_matrix P B Q n s = (Inr v, s') \<Longrightarrow>
   grid_points_to_spectral_matrix P B Q n s' = (Inr v, s')"
  unfolding grid_points_to_spectral_matrix_def by (rule precomputed_again) simp_all

lemma linear_filter_matrix_again:
  "linear_filter_matrix P B Q n s = (Inr v, s') \<Longrightarrow> linear_filter_matrix P B Q n s' = (Inr v, s')"
  unfolding linear_filter_matrix_def by (rule precomputed_again) simp_all

lemma accessors_out_of_range:
  assumes "\<not> supported P B Q n"
  shows "collocation_points P B Q n s = (Inl RangeError, s)"
    and "quadrature_weights P B Q n s = (Inl RangeError, s)"
    and "barycentric_weights P B Q n s = (Inl RangeError, s)"
    and "differentiation_matrix P B Q n s = (Inl RangeError, s)"
    and "spectral_to_grid_points_matrix P B Q n s = (Inl RangeError, s)"
    and "grid_points_to_spectral_matrix P B Q n s = (Inl RangeError, s)"
    and "linear_filter_matrix P B Q n s = (Inl RangeError, s)"
  using assms
  by (simp_all add: collocation_points_def quadrature_weights_def barycentric_weights_def
      differentiation_matrix_def spectral_to_grid_points_matrix_def
      grid_points_to_spectral_matrix_def linear_filter_matrix_def
      precomputed_out_of_range bind_c_def)

lemma mesh_dispatch_supported:
  assumes "basis0 mesh = Legendre"
    and "quadrature0 mesh = Gauss \<or> quadrature0 mesh = GaussLobatto"
  shows "get_spectral_quantity_for_mesh f mesh = f (basis0 mesh) (quadrature0 mesh) (extents0 mesh)"
  using assms by (auto simp: get_spectral_quantity_for_mesh_def Let_def)

lemma mesh_dispatch_unsupported:
  "basis0 mesh \<noteq> Legendre \<or> quadrature0 mesh = OtherQuadrature \<Longrightarrow>
   get_spectral_quantity_for_mesh f mesh s = (Inl UnsupportedCombination, s)"
  by (auto simp: get_spectral_quantity_for_mesh_def Let_def ERROR_def fail_c_def
      split: Basis.split Quadrature.split)

text \<open>Every call, whether it returns a value or an error, leaves the caches holding
  only values of the generators.\<close>

lemma accessors_preserve_invariant:
  assumes "caches_ok P s"
  shows "caches_ok P (snd (collocation_points P B Q n s))"
    and "caches_ok P (snd (quadrature_weights P B Q n s))"
    and "caches_ok P (snd (barycentric_weights P B Q n s))"
    and "caches_ok P (snd (differentiation_matrix P B Q n s))"
    and "caches_ok P (snd (spectral_to_grid_points_matrix P B Q n s))"
    and "caches_ok P (snd (grid_points_to_spectral_matrix P B Q n s))"
    and "caches_ok P (snd (linear_filter_matrix P B Q n s))"
    and "caches_ok P (snd (interpolation_matrix P B Q n target_points s))"
proof -
  show "caches_ok P (snd (collocation_points P B Q n s))"
    using assms collocation_points_ok[of P s B Q n] accessors_out_of_range(1)[of P B Q n s]
    by (cases "supported P B Q n") auto
  show "caches_ok P (snd (quadrature_weights P B Q n s))"
    using assms quadrature_weights_ok[of P s B Q n] accessors_out_of_range(2)[of P B Q n s]
    by (cases "supported P B Q n") auto
  show "caches_ok P (snd (barycentric_weights P B Q n s))"
    using assms barycentric_weights_ok[of P s B Q n] accessors_out_of_range(3)[of P B Q n s]
    by (cases "supported P B Q n") auto
  show "caches_ok P (snd (differentiation_matrix P B Q n s))"
    using assms differentiation_matrix_ok[of P s B Q n] accessors_out_of_range(4)[of P B Q n s]
    by (cases "supported P B Q n") auto
  show "caches_ok P (snd (spectral_to_grid_points_matrix P B Q n s))"
    using assms spectral_to_grid_points_matrix_ok[of P s B Q n]
      accessors_out_of_range(5)[of P B Q n s]
    by (cases "supported P B Q n") auto
  show "caches_ok P (snd (grid_points_to_spectral_matrix P B Q n s))"
    using assms grid_points_to_spectral_matrix_ok[of P s B Q n]
      accessors_out_of_range(6)[of P B Q n s]
    by (cases "supported P B Q n") auto
  show "caches_ok P (snd (linear_filter_matrix P B Q n s))"
    using assms linear_filter_matrix_ok[of P s B Q n] accessors_out_of_range(7)[of P B Q n s]
    by (cases "supported P B Q n") auto
  show "caches_ok P (snd (interpolation_matrix P B Q n target_points s))"
    using assms interpolation_matrix_ok[of P s B Q n target_points]
      interpolation_matrix_out_of_range[of P B Q n target_points s]
    by (cases "supported P B Q n") auto
qed

lemma mesh_dispatch_preserves_invariant:
  assumes "\<And>B Q n. caches_ok P (snd (f B Q n s))" and "caches_ok P s"
  shows "caches_ok P (snd (get_spectral_quantity_for_mesh f mesh s))"
  using assms
  by (auto simp: get_spectral_quantity_for_mesh_def Let_def ERROR_def fail_c_def
      split: Basis.split Quadrature.split)

section \<open>The instance\<close>

lemma small_supported:
  "supported small_prims Legendre GaussLobatto 2"
  "supported small_prims Legendre Gauss (Suc 0)"
  "supported small_prims Legendre Gauss 2"
  "supported small_prims Legendre GaussLobatto 3"
  by (simp_all add: supported_def small_prims_def)

lemma small_points:
  "points_of small_prims B GaussLobatto 2 = [- 1, 1]"
  "weights_of small_prims B GaussLobatto 2 = [1, 1]"
  "points_of small_prims B Gauss (Suc 0) = [0]"
  "weights_of small_prims B Gauss (Suc 0) = [2]"
  by (simp_all add: points_of_def weights_of_def small_prims_def small_rule_def)

lemma small_collocation_set:
  "collocation_set small_prims Legendre GaussLobatto 2"
  "collocation_set small_prims Legendre Gauss (Suc 0)"
  by (simp_all add: collocation_set_def small_points)

lemma lessThan_2_minus:
  "{..<2::nat} - {Suc 0} = {0}" "{..<2::nat} - {0} = {Suc 0}" "{..<Suc 0} - {0} = {}"
  by auto

lemma less_2_cases:
  "(\<exists>l<2::nat. R l) \<longleftrightarrow> R 0 \<or> R (Suc 0)"
  "(\<forall>l<2::nat. R l) \<longleftrightarrow> R 0 \<and> R (Suc 0)"
  "(\<forall>l<Suc (Suc 0). R l) \<longleftrightarrow> R 0 \<and> R (Suc 0)"
  by (auto simp: numeral_2_eq_2 less_Suc_eq)


lemma small_bary: "bary_of small_prims Legendre GaussLobatto 2 = [- 1 / 2, 1 / 2]"
proof -
  have "bary_reciprocals 2 (bary_products 2 [- 1, 1]) = [- 1 / 2, 1 / 2]"
    by (simp add: bary_reciprocals_def bary_products_def bary_pair_def numeral_2_eq_2)
  then show ?thesis by (simp add: bary_of_def small_points)
qed

lemma small_roundoff:
  "equal_within_roundoff small_prims a b \<longleftrightarrow> \<bar>a - b\<bar> \<le> (max \<bar>a\<bar> \<bar>b\<bar> + 1) / 100000000000000"
  by (simp add: small_prims_def)

lemma small_separates: "roundoff_separates small_prims [- 1, 1]"
  by (simp add: roundoff_separates_def small_roundoff less_2_cases)




text \<open>With the two Gauss points rounded to sixteen digits, the analytic expression is
  a left inverse of the Vandermonde matrix up to the rounding only, not exactly.\<close>

lemma rounded_gauss_rule_is_not_exact:
  "mat_mult (inverse_of small_prims Legendre Gauss 2) (vandermonde_of small_prims Legendre Gauss 2)
     \<noteq> identity_matrix 2"
  by code_simp

section \<open>Barycentric weights: the result\<close>

lemma bary_products_by_pairs:
  "bary_products n x = fold (\<lambda>(j, k). bary_pair x j k) (bary_pairs n) (replicate n 1)"
proof -
  have inner: "fold (\<lambda>(j, k). bary_pair x j k) (map (\<lambda>k. (j, k)) ks) bw = fold (bary_pair x j) ks bw"
    for j ks bw
    by (induction ks arbitrary: bw) simp_all
  have "fold (\<lambda>(j, k). bary_pair x j k) (concat (map (\<lambda>j. map (\<lambda>k. (j, k)) [0..<j]) js)) bw
      = fold (\<lambda>j bw. fold (bary_pair x j) [0..<j] bw) js bw" for js bw
    by (induction js arbitrary: bw) (simp_all add: inner)
  then show ?thesis by (simp add: bary_products_def bary_pairs_def)
qed

lemma length_bary_pairs: "2 * length (bary_pairs n) = n * (n - 1)"
proof -
  have "2 * length (concat (map (\<lambda>j. map (\<lambda>k. (j, k)) [0..<j]) [1..<Suc m])) = Suc m * m" for m
  proof (induction m)
    case 0
    then show ?case by simp
  next
    case (Suc m)
    have "[1..<Suc (Suc m)] = [1..<Suc m] @ [Suc m]" by simp
    then show ?case using Suc by (simp del: upt_Suc)
  qed
  then show ?thesis by (cases n) (simp_all add: bary_pairs_def)
qed

text \<open>
  C7. For any distinct collocation points \<open>x\<^sub>0, \<dots>, x\<^sub>n\<^sub>-\<^sub>1\<close> (whatever the functions
  that are not among the sources return, as long as the points are \<open>n\<close> and distinct),
  for a supported point count and from any state of the caches that satisfies their
  invariant, the barycentric weights generator returns \<open>n\<close> weights, and weight \<open>j\<close> is
  the reciprocal of the product of \<open>x\<^sub>j - x\<^sub>k\<close> over all \<open>k \<noteq> j\<close>. The weights are
  computed by the incremental product over pairs: one step of two multiplications
  for each of the \<open>n (n - 1) / 2\<close> pairs \<open>k < j\<close>, then the reciprocals.
\<close>

theorem barycentric_weights_are_reciprocal_products:
  assumes "caches_ok P s" and "supported P B Q n"
    and "length (points_of P B Q n) = n" and "distinct (points_of P B Q n)"
    and "j < n"
  shows "\<exists>bary_weights s'.
           BarycentricWeightsGenerator P B Q n s = (Inr bary_weights, s') \<and>
           length bary_weights = n \<and>
           bary_weights ! j =
             1 / (\<Prod>k\<in>{..<n} - {j}. points_of P B Q n ! j - points_of P B Q n ! k) \<and>
           bary_weights =
             bary_reciprocals n
               (fold (\<lambda>(j, k). bary_pair (points_of P B Q n) j k) (bary_pairs n) (replicate n 1)) \<and>
           2 * length (bary_pairs n) = n * (n - 1)"
proof -
  obtain s' where "BarycentricWeightsGenerator P B Q n s = (Inr (bary_of P B Q n), s')"
    using BarycentricWeightsGenerator_ok[OF assms(1,2)] by blast
  moreover have "length (bary_of P B Q n) = n" by (simp add: bary_of_def)
  moreover have "bary_of P B Q n ! j =
      1 / (\<Prod>k\<in>{..<n} - {j}. points_of P B Q n ! j - points_of P B Q n ! k)"
    using assms(5) by (simp add: bary_of_def bary_reciprocals_nth bary_products_nth)
  moreover have "bary_of P B Q n =
      bary_reciprocals n
        (fold (\<lambda>(j, k). bary_pair (points_of P B Q n) j k) (bary_pairs n) (replicate n 1))"
    by (simp add: bary_of_def bary_products_by_pairs)
  moreover note length_bary_pairs[of n]
  ultimately show ?thesis by blast
qed

theorem barycentric_weights_two_points:
  "\<exists>bary_weights s'.
     BarycentricWeightsGenerator small_prims Legendre GaussLobatto 2 empty_caches
       = (Inr bary_weights, s') \<and>
     length bary_weights = 2 \<and> bary_weights ! 1 = 1 / 2"
proof -
  have d: "length (points_of small_prims Legendre GaussLobatto 2) = 2"
    "distinct (points_of small_prims Legendre GaussLobatto 2)" "(1::nat) < 2"
    by (simp_all add: small_points)
  from barycentric_weights_are_reciprocal_products
    [OF caches_ok_empty small_supported(1) d]
  obtain bary_weights s' where b:
    "BarycentricWeightsGenerator small_prims Legendre GaussLobatto 2 empty_caches
       = (Inr bary_weights, s')"
    "length bary_weights = 2"
    "bary_weights ! 1 =
       1 / (\<Prod>k\<in>{..<2} - {1}. points_of small_prims Legendre GaussLobatto 2 ! 1 -
                                points_of small_prims Legendre GaussLobatto 2 ! k)"
    by blast
  have "bary_weights ! 1 = 1 / 2" using b(3) by (simp add: small_points lessThan_2_minus)
  then show ?thesis using b(1,2) by blast
qed

section \<open>Differentiation matrix: the result\<close>

text \<open>
  C3. For every supported point count, with \<open>n\<close> distinct collocation points, and from
  any state of the caches that satisfies their invariant, the differentiation matrix
  generator returns an \<open>n \<times> n\<close> matrix \<open>D\<close> such that in every row \<open>i\<close>: the off-diagonal
  element \<open>(i, j)\<close> is \<open>bary[j] / (bary[i] * (x\<^sub>i - x\<^sub>j))\<close>, the diagonal element is the
  negative sum of the off-diagonal elements of the row, the row sums to zero, and so
  the matrix maps a constant function to zero. Arithmetic is exact here, so the row
  sum is exactly zero.
\<close>

theorem differentiation_matrix_rows:
  assumes "caches_ok P s" and "supported P B Q n" and "collocation_set P B Q n" and "i < n"
  shows "\<exists>D s'.
           DifferentiationMatrixGenerator P B Q n s = (Inr D, s') \<and> is_matrix n n D \<and>
           (\<forall>j<n. j \<noteq> i \<longrightarrow>
              mat_at D i j =
                bary_of P B Q n ! j /
                (bary_of P B Q n ! i * (points_of P B Q n ! i - points_of P B Q n ! j))) \<and>
           mat_at D i i = - (\<Sum>j\<in>{..<n} - {i}. mat_at D i j) \<and>
           (\<Sum>j<n. mat_at D i j) = 0 \<and>
           (\<forall>c. (\<Sum>j<n. mat_at D i j * c) = 0)"
proof -
  let ?D = "diff_of P B Q n"
  obtain s' where "DifferentiationMatrixGenerator P B Q n s = (Inr ?D, s')"
    using DifferentiationMatrixGenerator_ok[OF assms(1,2)] by blast
  moreover have "is_matrix n n ?D" by (simp add: diff_of_def)
  moreover have off: "mat_at ?D i j =
      bary_of P B Q n ! j / (bary_of P B Q n ! i * (points_of P B Q n ! i - points_of P B Q n ! j))"
    if "j < n" "j \<noteq> i" for j
    using that assms(4) by (simp add: diff_of_def diff_loops_at diff_off_def)
  moreover have "mat_at ?D i i = - (\<Sum>j\<in>{..<n} - {i}. mat_at ?D i j)"
  proof -
    have "(\<Sum>j\<in>{..<n} - {i}. mat_at ?D i j)
        = (\<Sum>j\<in>{..<n} - {i}. diff_off (points_of P B Q n) (bary_of P B Q n) i j)"
      using assms(4) by (intro sum.cong) (simp_all add: diff_of_def diff_loops_at)
    then show ?thesis using assms(4) by (simp add: diff_of_def diff_loops_at)
  qed
  moreover have zero: "(\<Sum>j<n. mat_at ?D i j) = 0"
    using assms(4) by (simp add: diff_of_def diff_loops_row_sum)
  moreover have "(\<Sum>j<n. mat_at ?D i j * c) = 0" for c
    using zero by (simp add: sum_distrib_right[symmetric])
  ultimately show ?thesis by blast
qed

theorem differentiation_matrix_two_points:
  "\<exists>D s'.
     DifferentiationMatrixGenerator small_prims Legendre GaussLobatto 2 empty_caches = (Inr D, s') \<and>
     is_matrix 2 2 D \<and> mat_at D 0 1 = 1 / 2 \<and> mat_at D 0 0 = - mat_at D 0 1 \<and>
     mat_at D 0 0 + mat_at D 0 1 = 0"
proof -
  note b = small_bary
  from differentiation_matrix_rows
    [OF caches_ok_empty small_supported(1) small_collocation_set(1), of 0]
  obtain D s' where d:
    "DifferentiationMatrixGenerator small_prims Legendre GaussLobatto 2 empty_caches = (Inr D, s')"
    "is_matrix 2 2 D"
    "\<forall>j<2. j \<noteq> 0 \<longrightarrow> mat_at D 0 j =
       bary_of small_prims Legendre GaussLobatto 2 ! j /
       (bary_of small_prims Legendre GaussLobatto 2 ! 0 *
        (points_of small_prims Legendre GaussLobatto 2 ! 0 -
         points_of small_prims Legendre GaussLobatto 2 ! j))"
    "mat_at D 0 0 = - (\<Sum>j\<in>{..<2} - {0}. mat_at D 0 j)"
    "(\<Sum>j<2. mat_at D 0 j) = 0"
    by auto
  have "mat_at D 0 1 = 1 / 2" using d(3) by (simp add: b small_points)
  moreover have "mat_at D 0 0 = - mat_at D 0 1" using d(4) by (simp add: lessThan_2_minus)
  moreover have "mat_at D 0 0 + mat_at D 0 1 = 0" using d(5) by (simp add: lessThan_Suc numeral_2_eq_2)
  ultimately show ?thesis using d(1,2) by blast
qed

section \<open>Interpolation matrix: the result\<close>





text \<open>
  C4. For every supported point count with \<open>n\<close> collocation points that the round-off
  comparison tells apart, and from any state of the caches that satisfies their
  invariant, the interpolation matrix whose targets are the collocation points
  themselves is the \<open>n \<times> n\<close> identity matrix.
\<close>

theorem interpolation_to_collocation_points_is_identity:
  assumes "caches_ok P s" and "supported P B Q n" and "collocation_set P B Q n"
    and "roundoff_separates P (points_of P B Q n)"
  shows "\<exists>s'. interpolation_matrix P B Q n (points_of P B Q n) s = (Inr (identity_matrix n), s')"
proof -
  let ?x = "points_of P B Q n" and ?b = "bary_of P B Q n"
  let ?M = "interp_loops P n ?x ?b ?x"
  have len: "length ?x = n" using assms(3) by (simp add: collocation_set_def)
  have sep: "equal_within_roundoff P (?x ! i) (?x ! j) \<longleftrightarrow> i = j" if "i < n" "j < n" for i j
    using assms(4) that len by (simp add: roundoff_separates_def)
  obtain s' where run: "interpolation_matrix P B Q n ?x s = (Inr ?M, s')"
    using interpolation_matrix_ok[OF assms(1,2)] by blast
  have "?M = identity_matrix n"
  proof (rule mat_eqI[of n n])
    show "is_matrix n n ?M" using interp_loops_props(1)[of ?x n P ?x ?b] len by simp
    show "is_matrix n n (identity_matrix n)" by simp
    fix k j assume kj: "k < n" "j < n"
    have "mat_at ?M k j = interp_entry P n ?x ?b (?x ! k) j"
      using kj len by (intro interp_loops_props(2)) simp_all
    also have "\<dots> = (if k = j then 1 else 0)"
      using kj sep[OF kj] sep[OF kj(1) kj(1)] by (auto simp: interp_entry_def)
    finally show "mat_at ?M k j = mat_at (identity_matrix n) k j"
      using kj by (simp add: identity_matrix_at)
  qed
  then show ?thesis using run by simp
qed

theorem interpolation_identity_two_points:
  "\<exists>s'. interpolation_matrix small_prims Legendre GaussLobatto 2 [- 1, 1] empty_caches
          = (Inr (identity_matrix 2), s')"
  using interpolation_to_collocation_points_is_identity
    [OF caches_ok_empty small_supported(1) small_collocation_set(1)]
  by (simp add: small_points small_separates)

section \<open>Linear filter: the result\<close>





section \<open>Range check and cache\<close>

text \<open>
  C8. The caches of a program that has just started satisfy the invariant. For every
  basis, quadrature and generator, a request with a point count below the minimum of
  the pair or above the maximum fails with a RangeError and leaves the caches as they
  were, whatever the generator is (it is not called); so does a request for an
  interpolation matrix. For a point count in the range, from caches that satisfy the
  invariant, every request returns a value that depends on the basis, the quadrature,
  the generator and the point count only, leaves caches that satisfy the invariant,
  and a second request returns the same value and leaves the caches as they are.
\<close>

theorem range_check_before_cached_value:
  "caches_ok P empty_caches \<and>
   (\<not> supported P B Q n \<longrightarrow>
      precomputed_spectral_quantity P static_of static_update generator B Q n s
        = (Inl RangeError, s) \<and>
      collocation_points P B Q n s = (Inl RangeError, s) \<and>
      quadrature_weights P B Q n s = (Inl RangeError, s) \<and>
      barycentric_weights P B Q n s = (Inl RangeError, s) \<and>
      differentiation_matrix P B Q n s = (Inl RangeError, s) \<and>
      spectral_to_grid_points_matrix P B Q n s = (Inl RangeError, s) \<and>
      grid_points_to_spectral_matrix P B Q n s = (Inl RangeError, s) \<and>
      linear_filter_matrix P B Q n s = (Inl RangeError, s) \<and>
      interpolation_matrix P B Q n target_points s = (Inl RangeError, s)) \<and>
   (supported P B Q n \<and> caches_ok P s \<longrightarrow>
      (\<exists>s'. collocation_points P B Q n s = (Inr (points_of P B Q n), s') \<and> caches_ok P s' \<and>
            collocation_points P B Q n s' = (Inr (points_of P B Q n), s')) \<and>
      (\<exists>s'. quadrature_weights P B Q n s = (Inr (weights_of P B Q n), s') \<and> caches_ok P s' \<and>
            quadrature_weights P B Q n s' = (Inr (weights_of P B Q n), s')) \<and>
      (\<exists>s'. barycentric_weights P B Q n s = (Inr (bary_of P B Q n), s') \<and> caches_ok P s' \<and>
            barycentric_weights P B Q n s' = (Inr (bary_of P B Q n), s')) \<and>
      (\<exists>s'. differentiation_matrix P B Q n s = (Inr (diff_of P B Q n), s') \<and> caches_ok P s' \<and>
            differentiation_matrix P B Q n s' = (Inr (diff_of P B Q n), s')) \<and>
      (\<exists>s'. spectral_to_grid_points_matrix P B Q n s = (Inr (vandermonde_of P B Q n), s') \<and>
            caches_ok P s' \<and>
            spectral_to_grid_points_matrix P B Q n s' = (Inr (vandermonde_of P B Q n), s')) \<and>
      (\<exists>s'. grid_points_to_spectral_matrix P B Q n s = (Inr (inverse_of P B Q n), s') \<and>
            caches_ok P s' \<and>
            grid_points_to_spectral_matrix P B Q n s' = (Inr (inverse_of P B Q n), s')) \<and>
      (\<exists>s'. linear_filter_matrix P B Q n s = (Inr (filter_of P B Q n), s') \<and> caches_ok P s' \<and>
            linear_filter_matrix P B Q n s' = (Inr (filter_of P B Q n), s')) \<and>
      (\<exists>s'. interpolation_matrix P B Q n target_points s
              = (Inr (interp_loops P n (points_of P B Q n) (bary_of P B Q n) target_points), s') \<and>
            caches_ok P s'))"
proof (intro conjI impI)
  show "caches_ok P empty_caches" by (rule caches_ok_empty)
next
  assume "\<not> supported P B Q n"
  then show "precomputed_spectral_quantity P static_of static_update generator B Q n s
        = (Inl RangeError, s)" by (rule precomputed_out_of_range)
next
  assume a: "supported P B Q n \<and> caches_ok P s"
  show "\<exists>s'. collocation_points P B Q n s = (Inr (points_of P B Q n), s') \<and> caches_ok P s' \<and>
            collocation_points P B Q n s' = (Inr (points_of P B Q n), s')"
    using collocation_points_ok[of P s B Q n] a by (blast intro: collocation_points_again)
  show "\<exists>s'. quadrature_weights P B Q n s = (Inr (weights_of P B Q n), s') \<and> caches_ok P s' \<and>
            quadrature_weights P B Q n s' = (Inr (weights_of P B Q n), s')"
    using quadrature_weights_ok[of P s B Q n] a by (blast intro: quadrature_weights_again)
  show "\<exists>s'. barycentric_weights P B Q n s = (Inr (bary_of P B Q n), s') \<and> caches_ok P s' \<and>
            barycentric_weights P B Q n s' = (Inr (bary_of P B Q n), s')"
    using barycentric_weights_ok[of P s B Q n] a by (blast intro: barycentric_weights_again)
  show "\<exists>s'. differentiation_matrix P B Q n s = (Inr (diff_of P B Q n), s') \<and> caches_ok P s' \<and>
            differentiation_matrix P B Q n s' = (Inr (diff_of P B Q n), s')"
    using differentiation_matrix_ok[of P s B Q n] a by (blast intro: differentiation_matrix_again)
  show "\<exists>s'. spectral_to_grid_points_matrix P B Q n s = (Inr (vandermonde_of P B Q n), s') \<and>
            caches_ok P s' \<and>
            spectral_to_grid_points_matrix P B Q n s' = (Inr (vandermonde_of P B Q n), s')"
    using spectral_to_grid_points_matrix_ok[of P s B Q n] a
    by (blast intro: spectral_to_grid_points_matrix_again)
  show "\<exists>s'. grid_points_to_spectral_matrix P B Q n s = (Inr (inverse_of P B Q n), s') \<and>
            caches_ok P s' \<and>
            grid_points_to_spectral_matrix P B Q n s' = (Inr (inverse_of P B Q n), s')"
    using grid_points_to_spectral_matrix_ok[of P s B Q n] a
    by (blast intro: grid_points_to_spectral_matrix_again)
  show "\<exists>s'. linear_filter_matrix P B Q n s = (Inr (filter_of P B Q n), s') \<and> caches_ok P s' \<and>
            linear_filter_matrix P B Q n s' = (Inr (filter_of P B Q n), s')"
    using linear_filter_matrix_ok[of P s B Q n] a by (blast intro: linear_filter_matrix_again)
  show "\<exists>s'. interpolation_matrix P B Q n target_points s
              = (Inr (interp_loops P n (points_of P B Q n) (bary_of P B Q n) target_points), s') \<and>
            caches_ok P s'"
    using interpolation_matrix_ok[of P s B Q n] a by blast
next
  assume a: "\<not> supported P B Q n"
  show "collocation_points P B Q n s = (Inl RangeError, s)"
    using a by (rule accessors_out_of_range)
  show "quadrature_weights P B Q n s = (Inl RangeError, s)"
    using a by (rule accessors_out_of_range)
  show "barycentric_weights P B Q n s = (Inl RangeError, s)"
    using a by (rule accessors_out_of_range)
  show "differentiation_matrix P B Q n s = (Inl RangeError, s)"
    using a by (rule accessors_out_of_range)
  show "spectral_to_grid_points_matrix P B Q n s = (Inl RangeError, s)"
    using a by (rule accessors_out_of_range)
  show "grid_points_to_spectral_matrix P B Q n s = (Inl RangeError, s)"
    using a by (rule accessors_out_of_range)
  show "linear_filter_matrix P B Q n s = (Inl RangeError, s)"
    using a by (rule accessors_out_of_range)
  show "interpolation_matrix P B Q n target_points s = (Inl RangeError, s)"
    using a by (rule interpolation_matrix_out_of_range)
qed

theorem range_check_small_instance:
  "collocation_points small_prims Legendre Gauss 0 empty_caches = (Inl RangeError, empty_caches) \<and>
   linear_filter_matrix small_prims Legendre GaussLobatto 4 empty_caches
     = (Inl RangeError, empty_caches) \<and>
   interpolation_matrix small_prims Legendre GaussLobatto 1 [0] empty_caches
     = (Inl RangeError, empty_caches) \<and>
   (\<exists>s'. collocation_points small_prims Legendre GaussLobatto 2 empty_caches = (Inr [- 1, 1], s') \<and>
         caches_ok small_prims s' \<and>
         collocation_points small_prims Legendre GaussLobatto 2 s' = (Inr [- 1, 1], s'))"
proof -
  have out: "\<not> supported small_prims Legendre Gauss 0"
    "\<not> supported small_prims Legendre GaussLobatto 4"
    "\<not> supported small_prims Legendre GaussLobatto 1"
    by (simp_all add: supported_def small_prims_def)
  note t0 = range_check_before_cached_value
    [of small_prims Legendre Gauss 0 _ _ _ empty_caches "[]"]
  note t3 = range_check_before_cached_value
    [of small_prims Legendre GaussLobatto 4 _ _ _ empty_caches "[]"]
  note t1 = range_check_before_cached_value
    [of small_prims Legendre GaussLobatto 1 _ _ _ empty_caches "[0]"]
  note t2 = range_check_before_cached_value
    [of small_prims Legendre GaussLobatto 2 _ _ _ empty_caches "[]"]
  have "collocation_points small_prims Legendre Gauss 0 empty_caches
      = (Inl RangeError, empty_caches)" using t0 out(1) by blast
  moreover have "linear_filter_matrix small_prims Legendre GaussLobatto 4 empty_caches
     = (Inl RangeError, empty_caches)" using t3 out(2) by blast
  moreover have "interpolation_matrix small_prims Legendre GaussLobatto 1 [0] empty_caches
     = (Inl RangeError, empty_caches)" using t1 out(3) by blast
  moreover have "\<exists>s'. collocation_points small_prims Legendre GaussLobatto 2 empty_caches
         = (Inr [- 1, 1], s') \<and> caches_ok small_prims s' \<and>
         collocation_points small_prims Legendre GaussLobatto 2 s' = (Inr [- 1, 1], s')"
    using t2 small_supported(1) caches_ok_empty[of small_prims] small_points(1)[of Legendre]
    by metis
  ultimately show ?thesis by blast
qed

section \<open>Dispatch on a mesh: the result\<close>

text \<open>
  C9. For every mesh whose basis is Legendre and whose quadrature is Gauss or
  Gauss-Lobatto, each of the seven overloads that take a mesh is the same function of
  the caches (same result, same caches afterwards) as the corresponding function
  called with the basis, the quadrature and the extent of the mesh.
\<close>

theorem mesh_overloads_call_the_generators:
  assumes "basis0 mesh = Legendre"
    and "quadrature0 mesh = Gauss \<or> quadrature0 mesh = GaussLobatto"
  shows
    "collocation_points_mesh P mesh
       = collocation_points P (basis0 mesh) (quadrature0 mesh) (extents0 mesh) \<and>
     quadrature_weights_mesh P mesh
       = quadrature_weights P (basis0 mesh) (quadrature0 mesh) (extents0 mesh) \<and>
     differentiation_matrix_mesh P mesh
       = differentiation_matrix P (basis0 mesh) (quadrature0 mesh) (extents0 mesh) \<and>
     spectral_to_grid_points_matrix_mesh P mesh
       = spectral_to_grid_points_matrix P (basis0 mesh) (quadrature0 mesh) (extents0 mesh) \<and>
     grid_points_to_spectral_matrix_mesh P mesh
       = grid_points_to_spectral_matrix P (basis0 mesh) (quadrature0 mesh) (extents0 mesh) \<and>
     linear_filter_matrix_mesh P mesh
       = linear_filter_matrix P (basis0 mesh) (quadrature0 mesh) (extents0 mesh) \<and>
     interpolation_matrix_mesh P mesh target_points
       = interpolation_matrix P (basis0 mesh) (quadrature0 mesh) (extents0 mesh) target_points"
  by (simp add: collocation_points_mesh_def quadrature_weights_mesh_def
      differentiation_matrix_mesh_def spectral_to_grid_points_matrix_mesh_def
      grid_points_to_spectral_matrix_mesh_def linear_filter_matrix_mesh_def
      interpolation_matrix_mesh_def mesh_dispatch_supported[OF assms])

theorem mesh_overloads_two_lobatto_points:
  "collocation_points_mesh small_prims
     \<lparr>extents0 = 2, basis0 = Legendre, quadrature0 = GaussLobatto\<rparr>
     = collocation_points small_prims Legendre GaussLobatto 2 \<and>
   linear_filter_matrix_mesh small_prims
     \<lparr>extents0 = 2, basis0 = Legendre, quadrature0 = GaussLobatto\<rparr>
     = linear_filter_matrix small_prims Legendre GaussLobatto 2 \<and>
   interpolation_matrix_mesh small_prims
     \<lparr>extents0 = 1, basis0 = Legendre, quadrature0 = Gauss\<rparr> [1 / 2]
     = interpolation_matrix small_prims Legendre Gauss 1 [1 / 2]"
  using mesh_overloads_call_the_generators
      [of "\<lparr>extents0 = 2, basis0 = Legendre, quadrature0 = GaussLobatto\<rparr>" small_prims "[]"]
    mesh_overloads_call_the_generators
      [of "\<lparr>extents0 = 1, basis0 = Legendre, quadrature0 = Gauss\<rparr>" small_prims "[1 / 2]"]
  by simp

end
